theory Spec2Isabelle
  imports Main "HOL-Library.AList" "HOL-Library.List_Lexorder" "HOL-Library.Multiset"
begin

section \<open>Python values used by the scripts\<close>

text \<open>
  The scripts are Python; strings are modelled as \<^typ>\<open>string\<close>, insertion-ordered
  dictionaries as association lists updated with \<^const>\<open>AList.update\<close> (an existing key
  keeps its position, a new key goes to the end), and every exception the modelled code
  can raise as a value of the type \<open>error\<close>.
\<close>

datatype error =
    KeyError string
  | ValueError string
  | IndexError
  | AttributeError
  | TypeError
  | SequenceMismatch

text \<open>
  \<^verbatim>\<open>str.split()\<close> without an argument splits at runs of whitespace and drops empty
  pieces.  The whitespace characters are those of Python below code point 256.
\<close>

definition is_space :: "char \<Rightarrow> bool" where
  "is_space c \<longleftrightarrow> (of_char c :: nat) \<in> {9, 10, 11, 12, 13, 28, 29, 30, 31, 32, 133, 160}"

fun split_acc :: "string \<Rightarrow> string \<Rightarrow> string list" where
  "split_acc cur [] = (if cur = [] then [] else [cur])"
| "split_acc cur (c # cs) =
     (if is_space c then (if cur = [] then split_acc [] cs else cur # split_acc [] cs)
      else split_acc (cur @ [c]) cs)"

definition py_split :: "string \<Rightarrow> string list" where
  "py_split s = split_acc [] s"

text \<open>\<^verbatim>\<open>s.split(sep)\<close> for a separator of one character: empty pieces are kept.\<close>

fun split_on_acc :: "char \<Rightarrow> string \<Rightarrow> string \<Rightarrow> string list" where
  "split_on_acc sep cur [] = [cur]"
| "split_on_acc sep cur (c # cs) =
     (if c = sep then cur # split_on_acc sep [] cs else split_on_acc sep (cur @ [c]) cs)"

definition py_split_on :: "char \<Rightarrow> string \<Rightarrow> string list" where
  "py_split_on sep s = split_on_acc sep [] s"

text \<open>\<^verbatim>\<open>sep.join(xs)\<close>.\<close>

fun py_join :: "string \<Rightarrow> string list \<Rightarrow> string" where
  "py_join sep [] = []"
| "py_join sep [x] = x"
| "py_join sep (x # y # ys) = x @ sep @ py_join sep (y # ys)"

text \<open>\<^verbatim>\<open>s.strip(chars)\<close>: leading and trailing characters of \<^verbatim>\<open>chars\<close> are dropped.\<close>

definition py_strip :: "string \<Rightarrow> string \<Rightarrow> string" where
  "py_strip chars s =
     rev (dropWhile (\<lambda>c. c \<in> set chars) (rev (dropWhile (\<lambda>c. c \<in> set chars) s)))"

text \<open>The substring test \<^verbatim>\<open>x in s\<close> on strings.\<close>

fun str_in :: "string \<Rightarrow> string \<Rightarrow> bool" where
  "str_in x [] = (x = [])"
| "str_in x (c # cs) = (take (length x) (c # cs) = x \<or> str_in x cs)"

text \<open>
  \<^verbatim>\<open>d.setdefault(k, []).append(v)\<close>, which the scripts write as a membership test followed
  by an \<^verbatim>\<open>append\<close>.
\<close>

definition dict_append :: "string \<Rightarrow> 'v \<Rightarrow> (string \<times> 'v list) list \<Rightarrow> (string \<times> 'v list) list" where
  "dict_append k v d =
     AList.update k (case map_of d k of None \<Rightarrow> [v] | Some vs \<Rightarrow> vs @ [v]) d"

text \<open>Running a list of steps that may raise: the first error ends the run.\<close>

fun concat_results :: "(error + 'a list) list \<Rightarrow> error + 'a list" where
  "concat_results [] = Inr []"
| "concat_results (r # rs) =
     (case r of
        Inl e \<Rightarrow> Inl e
      | Inr xs \<Rightarrow> (case concat_results rs of Inl e \<Rightarrow> Inl e | Inr ys \<Rightarrow> Inr (xs @ ys)))"

definition bind_err :: "error + 'a \<Rightarrow> ('a \<Rightarrow> error + 'b) \<Rightarrow> error + 'b" where
  "bind_err r f = (case r of Inl e \<Rightarrow> Inl e | Inr x \<Rightarrow> f x)"

fun map_results :: "(error + 'a) list \<Rightarrow> error + 'a list" where
  "map_results [] = Inr []"
| "map_results (r # rs) =
     (case r of
        Inl e \<Rightarrow> Inl e
      | Inr x \<Rightarrow> (case map_results rs of Inl e \<Rightarrow> Inl e | Inr xs \<Rightarrow> Inr (x # xs)))"

text \<open>\<^verbatim>\<open>d[k]\<close> on a dictionary: a missing key raises \<^verbatim>\<open>KeyError\<close>.\<close>

definition lookup :: "(string \<times> 'v) list \<Rightarrow> string \<Rightarrow> error + 'v" where
  "lookup d k = (case map_of d k of None \<Rightarrow> Inl (KeyError k) | Some v \<Rightarrow> Inr v)"

text \<open>
  \<^verbatim>\<open>int(s)\<close> on a string: surrounding whitespace is dropped, a sign may come first, and
  the digits may be grouped by single underscores; anything else raises \<^verbatim>\<open>ValueError\<close>.
  \<^verbatim>\<open>str(n)\<close> on a natural number writes its decimal digits.
\<close>

definition is_digit :: "char \<Rightarrow> bool" where
  "is_digit c \<longleftrightarrow> c \<in> set ''0123456789''"

definition digit_val :: "char \<Rightarrow> nat" where
  "digit_val c = of_char c - 48"

fun int_digits :: "nat \<Rightarrow> string \<Rightarrow> nat option" where
  "int_digits acc [] = Some acc"
| "int_digits acc [c] = (if is_digit c then Some (10 * acc + digit_val c) else None)"
| "int_digits acc (c # d # cs) =
     (if is_digit c then int_digits (10 * acc + digit_val c) (d # cs)
      else if c = CHR ''_'' \<and> is_digit d then int_digits (10 * acc + digit_val d) cs
      else None)"

definition int_unsigned :: "string \<Rightarrow> nat option" where
  "int_unsigned s =
     (case s of
        [] \<Rightarrow> None
      | c # cs \<Rightarrow> if is_digit c then int_digits (digit_val c) cs else None)"

definition py_int :: "string \<Rightarrow> error + int" where
  "py_int s =
     (let t = rev (dropWhile is_space (rev (dropWhile is_space s)));
          r = (case t of
                 [] \<Rightarrow> None
               | c # cs \<Rightarrow>
                   if c = CHR ''-'' then map_option (\<lambda>n. - int n) (int_unsigned cs)
                   else if c = CHR ''+'' then map_option int (int_unsigned cs)
                   else map_option int (int_unsigned t))
      in case r of None \<Rightarrow> Inl (ValueError s) | Some i \<Rightarrow> Inr i)"

fun py_str :: "nat \<Rightarrow> string" where
  "py_str n =
     (if n < 10 then [''0123456789'' ! n]
      else py_str (n div 10) @ [''0123456789'' ! (n mod 10)])"

declare py_str.simps [simp del]

text \<open>
  \<^verbatim>\<open>sorted(xs, key=f)\<close> where \<^verbatim>\<open>f\<close> may raise: Python computes the key of every element
  first, in order, and then sorts stably by the keys.
\<close>

definition sort_with_keys :: "'k::linorder list \<Rightarrow> 'a list \<Rightarrow> 'a list" where
  "sort_with_keys ks xs = map snd (sort_key fst (zip ks xs))"

definition sorted_by :: "('a \<Rightarrow> error + 'k::linorder) \<Rightarrow> 'a list \<Rightarrow> error + 'a list" where
  "sorted_by f xs = bind_err (map_results (map f xs)) (\<lambda>ks. Inr (sort_with_keys ks xs))"

text \<open>
  A dictionary from the entries of a list to their indices, as the scripts build it in a
  loop over \<^verbatim>\<open>enumerate\<close> (a repeated entry keeps its first position and takes its last
  index).
\<close>

definition index_map :: "string list \<Rightarrow> (string \<times> nat) list" where
  "index_map xs = fold (\<lambda>p d. AList.update (snd p) (fst p) d) (enumerate 0 xs) []"

section \<open>Elements of a document\<close>

text \<open>
  An element is its tag (the local name in the TEI namespace), its attributes in order, its
  text, its children and its tail; a comment is its text and its tail.  The attribute
  \<^verbatim>\<open>xml:id\<close> is kept under that name.
\<close>

datatype xml =
    Element string "(string \<times> string) list" "string option" "xml list" "string option"
  | Comment string "string option"

fun is_comment :: "xml \<Rightarrow> bool" where
  "is_comment (Comment c ta) = True"
| "is_comment (Element t a tx ks ta) = False"

fun raw_tag :: "xml \<Rightarrow> string" where
  "raw_tag (Element t a tx ks ta) = t"
| "raw_tag (Comment c ta) = []"

fun xml_get :: "xml \<Rightarrow> string \<Rightarrow> string option" where
  "xml_get (Element t a tx ks ta) k = map_of a k"
| "xml_get (Comment c ta) k = None"

fun xml_set :: "string \<Rightarrow> string \<Rightarrow> xml \<Rightarrow> xml" where
  "xml_set k v (Element t a tx ks ta) = Element t (AList.update k v a) tx ks ta"
| "xml_set k v (Comment c ta) = Comment c ta"

fun children :: "xml \<Rightarrow> xml list" where
  "children (Element t a tx ks ta) = ks"
| "children (Comment c ta) = []"

fun set_children :: "xml list \<Rightarrow> xml \<Rightarrow> xml" where
  "set_children ks' (Element t a tx ks ta) = Element t a tx ks' ta"
| "set_children ks' (Comment c ta) = Comment c ta"

fun set_tail :: "string option \<Rightarrow> xml \<Rightarrow> xml" where
  "set_tail ta' (Element t a tx ks ta) = Element t a tx ks ta'"
| "set_tail ta' (Comment c ta) = Comment c ta'"

section \<open>Siglum Resolver\<close>

text \<open>
  Python's \<^verbatim>\<open>s.endswith(suf)\<close> and the slice \<^verbatim>\<open>s[:-k]\<close>.  The slice is written out for
  \<^verbatim>\<open>k = 0\<close>, where \<^verbatim>\<open>s[:-0]\<close> is \<^verbatim>\<open>s[:0]\<close>, the empty string, and for \<^verbatim>\<open>k\<close> beyond the
  length of \<^verbatim>\<open>s\<close>, where it is empty as well.
\<close>

definition endswith :: "string \<Rightarrow> string \<Rightarrow> bool" where
  "endswith s suf \<longleftrightarrow> length suf \<le> length s \<and> drop (length s - length suf) s = suf"

definition slice_to_neg :: "string \<Rightarrow> nat \<Rightarrow> string" where
  "slice_to_neg s k = (if k = 0 then [] else take (length s - k) s)"

text \<open>
  \<^verbatim>\<open>parse_wit(wit, suffixes)\<close> of \<^verbatim>\<open>negative_to_positive_apparatus.py\<close>.  The inner
  \<^verbatim>\<open>for\<close> loop with its \<^verbatim>\<open>break\<close> picks the first suffix of the table that ends the
  current siglum; the outer \<^verbatim>\<open>while True\<close> has no bound of its own, so the loop is a
  partial function and \<open>None\<close> stands for a run that never returns.
\<close>

partial_function (option) parse_wit_loop ::
  "string list \<Rightarrow> string \<Rightarrow> string list \<Rightarrow> (string \<times> string list) option" where
  "parse_wit_loop suffixes base_wit wit_suffixes =
     (case find (endswith base_wit) suffixes of
        None \<Rightarrow> Some (base_wit, wit_suffixes)
      | Some suffix \<Rightarrow>
          parse_wit_loop suffixes (slice_to_neg base_wit (length suffix)) (suffix # wit_suffixes))"

definition parse_wit :: "string \<Rightarrow> string list \<Rightarrow> (string \<times> string list) option" where
  "parse_wit wit suffixes = parse_wit_loop suffixes wit []"

text \<open>
  \<^verbatim>\<open>parse_wit\<close> of \<^verbatim>\<open>validate_collation.py\<close> takes one suffix list per role.  Each of the
  five \<^verbatim>\<open>for\<close> loops overwrites \<^verbatim>\<open>suffix\<close> with the first match of its own list, so the
  last role with a match wins; an empty \<^verbatim>\<open>suffix\<close> ends the \<^verbatim>\<open>while\<close> loop.
\<close>

definition first_match :: "string \<Rightarrow> string list \<Rightarrow> string \<Rightarrow> string" where
  "first_match base_wit role_suffixes suffix =
     (case find (endswith base_wit) role_suffixes of None \<Rightarrow> suffix | Some s \<Rightarrow> s)"

definition choose_suffix ::
  "string \<Rightarrow> string list \<Rightarrow> string list \<Rightarrow> string list \<Rightarrow> string list \<Rightarrow> string list \<Rightarrow> string" where
  "choose_suffix base_wit first_hand_suffixes main_text_suffixes corrector_suffixes
       alternate_suffixes multiple_suffixes =
     first_match base_wit multiple_suffixes
       (first_match base_wit alternate_suffixes
         (first_match base_wit corrector_suffixes
           (first_match base_wit main_text_suffixes
             (first_match base_wit first_hand_suffixes []))))"

lemma first_match_cases:
  "first_match b l cur = cur \<or> endswith b (first_match b l cur)"
  by (auto simp: first_match_def find_Some_iff split: option.split)

lemma choose_suffix_cases:
  "choose_suffix b fh mt co al mu = [] \<or> endswith b (choose_suffix b fh mt co al mu)"
  unfolding choose_suffix_def
  by (metis first_match_cases)

lemma slice_to_neg_shorter:
  "endswith b s \<Longrightarrow> s \<noteq> [] \<Longrightarrow> length (slice_to_neg b (length s)) < length b"
  by (cases s) (auto simp: endswith_def slice_to_neg_def)

function parse_wit_roles_loop ::
  "string list \<Rightarrow> string list \<Rightarrow> string list \<Rightarrow> string list \<Rightarrow> string list \<Rightarrow>
   string \<Rightarrow> string list \<Rightarrow> string \<times> string list" where
  "parse_wit_roles_loop fh mt co al mu base_wit suffixes =
     (let suffix = choose_suffix base_wit fh mt co al mu in
      if length suffix = 0 then (base_wit, suffixes)
      else parse_wit_roles_loop fh mt co al mu
             (slice_to_neg base_wit (length suffix)) (suffix # suffixes))"
  by pat_completeness auto
termination
proof (relation "measure (\<lambda>(fh, mt, co, al, mu, b, ss). length b)")
  show "wf (measure (\<lambda>(fh, mt, co, al, mu, b, ss). length b))" by simp
next
  fix fh mt co al mu :: "string list" and base_wit :: string and suffixes :: "string list"
    and x :: string
  assume x: "x = choose_suffix base_wit fh mt co al mu" and ne: "length x \<noteq> 0"
  from ne have "x \<noteq> []" by simp
  with x choose_suffix_cases [of base_wit fh mt co al mu] have "endswith base_wit x" by simp
  then have "length (slice_to_neg base_wit (length x)) < length base_wit"
    using \<open>x \<noteq> []\<close> by (rule slice_to_neg_shorter)
  then show "((fh, mt, co, al, mu, slice_to_neg base_wit (length x), x # suffixes),
              (fh, mt, co, al, mu, base_wit, suffixes))
             \<in> measure (\<lambda>(fh, mt, co, al, mu, b, ss). length b)"
    by simp
qed

declare parse_wit_roles_loop.simps [simp del]

definition parse_wit_roles ::
  "string \<Rightarrow> string list \<Rightarrow> string list \<Rightarrow> string list \<Rightarrow> string list \<Rightarrow> string list \<Rightarrow>
   string \<times> string list" where
  "parse_wit_roles wit fh mt co al mu = parse_wit_roles_loop fh mt co al mu wit []"

section \<open>Apparatus Validator: unmatched witness pairs\<close>

text \<open>
  What \<^verbatim>\<open>find_unmatched_witness_pairs\<close> of \<^verbatim>\<open>validate_collation.py\<close> reads of a
  document: for every \<^verbatim>\<open>app\<close> element its \<^verbatim>\<open>xml:id\<close> and its \<^verbatim>\<open>rdg\<close> children in
  document order, and of every \<^verbatim>\<open>rdg\<close> its \<^verbatim>\<open>n\<close> and \<^verbatim>\<open>wit\<close> attributes.  An absent
  \<^verbatim>\<open>n\<close> or \<^verbatim>\<open>xml:id\<close> is \<open>None\<close> (it is only printed); the \<^verbatim>\<open>wit\<close> attribute is
  taken to be present.
\<close>

record v_rdg =
  v_n :: "string option"
  v_wit :: string

record v_app =
  v_id :: "string option"
  v_rdgs :: "v_rdg list"

text \<open>One constructor per message the function prints, with the values it formats.\<close>

datatype report =
    LoneSubwitness string "string option" "string option"
  | BaseAlongside string "string option" "string list" "string option"
  | FirstHandWithoutCorrector string "string option" "string option"
  | CorrectorWithoutFirstHand string "string option" "string option"
  | MainTextWithoutAlternate string "string option" "string option"
  | AlternateWithoutMainText string "string option" "string option"
  | MultipleWithoutOther string "string option" "string option"

text \<open>The first loop: both dictionaries, filled citation by citation.\<close>

definition collect_citation ::
  "string list \<Rightarrow> string list \<Rightarrow> string list \<Rightarrow> string list \<Rightarrow> string list \<Rightarrow>
   string option \<Rightarrow> string \<Rightarrow>
   (string \<times> string option list) list \<times> (string \<times> string list list) list \<Rightarrow>
   (string \<times> string option list) list \<times> (string \<times> string list list) list" where
  "collect_citation fh mt co al mu n wit st =
     (let (base_wit, suffixes) = parse_wit_roles wit fh mt co al mu in
      (dict_append wit n (fst st), dict_append base_wit suffixes (snd st)))"

definition collect_citations ::
  "string list \<Rightarrow> string list \<Rightarrow> string list \<Rightarrow> string list \<Rightarrow> string list \<Rightarrow>
   v_rdg list \<Rightarrow>
   (string \<times> string option list) list \<times> (string \<times> string list list) list" where
  "collect_citations fh mt co al mu rdgs =
     fold (\<lambda>rdg. fold (collect_citation fh mt co al mu (v_n rdg)) (py_split (v_wit rdg)))
       rdgs ([], [])"

text \<open>\<^verbatim>\<open>rdgs_by_wit[subwit][0]\<close>, evaluated when a message is formatted.\<close>

definition first_reading ::
  "(string \<times> string option list) list \<Rightarrow> string \<Rightarrow> error + string option" where
  "first_reading rdgs_by_wit wit =
     (case map_of rdgs_by_wit wit of
        None \<Rightarrow> Inl (KeyError wit)
      | Some [] \<Rightarrow> Inl IndexError
      | Some (n # ns) \<Rightarrow> Inr n)"

text \<open>
  The innermost loop looks for another suffix list with a different suffix of a
  compatible role at the same position; it only computes the flag \<^verbatim>\<open>suffix_matched\<close>.
\<close>

definition suffix_matched ::
  "string list \<Rightarrow> string list \<Rightarrow> string list \<Rightarrow> string list \<Rightarrow> string list \<Rightarrow>
   string list list \<Rightarrow> nat \<Rightarrow> string \<Rightarrow> bool" where
  "suffix_matched fh mt co al mu suffix_lists i suffix =
     list_ex (\<lambda>other_suffix_list.
        i < length other_suffix_list \<and> other_suffix_list ! i \<noteq> suffix \<and>
        (suffix \<in> set fh \<and> other_suffix_list ! i \<in> set co \<or>
         suffix \<in> set co \<and> other_suffix_list ! i \<in> set fh \<or>
         suffix \<in> set mt \<and> other_suffix_list ! i \<in> set al \<or>
         suffix \<in> set al \<and> other_suffix_list ! i \<in> set mt \<or>
         suffix \<in> set mu \<and> other_suffix_list ! i \<in> set mu))
       suffix_lists"

definition unmatched_reports ::
  "string list \<Rightarrow> string list \<Rightarrow> string list \<Rightarrow> string list \<Rightarrow> string list \<Rightarrow>
   string \<Rightarrow> string option \<Rightarrow> string option \<Rightarrow> string \<Rightarrow> report list" where
  "unmatched_reports fh mt co al mu subwit n app_id suffix =
     (if suffix \<in> set fh then [FirstHandWithoutCorrector subwit n app_id] else []) @
     (if suffix \<in> set co then [CorrectorWithoutFirstHand subwit n app_id] else []) @
     (if suffix \<in> set mt then [MainTextWithoutAlternate subwit n app_id] else []) @
     (if suffix \<in> set al then [AlternateWithoutMainText subwit n app_id] else []) @
     (if suffix \<in> set mu then [MultipleWithoutOther subwit n app_id] else [])"

definition check_suffix ::
  "string list \<Rightarrow> string list \<Rightarrow> string list \<Rightarrow> string list \<Rightarrow> string list \<Rightarrow>
   (string \<times> string option list) list \<Rightarrow> string option \<Rightarrow> string list list \<Rightarrow> string \<Rightarrow>
   nat \<times> string \<Rightarrow> error + report list" where
  "check_suffix fh mt co al mu rdgs_by_wit app_id suffix_lists subwit p =
     (if suffix_matched fh mt co al mu suffix_lists (fst p) (snd p) then Inr []
      else if snd p \<in> set fh \<union> set co \<union> set mt \<union> set al \<union> set mu then
        (case first_reading rdgs_by_wit subwit of
           Inl e \<Rightarrow> Inl e
         | Inr n \<Rightarrow> Inr (unmatched_reports fh mt co al mu subwit n app_id (snd p)))
      else Inr [])"

text \<open>
  One suffix list of a base witness that has several.  The list comprehension in the
  message for a bare base witness filters on the length of the current (empty) suffix
  list, as the source does.
\<close>

definition check_suffix_list ::
  "string list \<Rightarrow> string list \<Rightarrow> string list \<Rightarrow> string list \<Rightarrow> string list \<Rightarrow>
   (string \<times> string option list) list \<Rightarrow> string option \<Rightarrow> string \<Rightarrow> string list list \<Rightarrow>
   string list \<Rightarrow> error + report list" where
  "check_suffix_list fh mt co al mu rdgs_by_wit app_id base_wit suffix_lists suffix_list =
     concat_results
       ((if length suffix_list = 0 then
           (case first_reading rdgs_by_wit base_wit of
              Inl e \<Rightarrow> Inl e
            | Inr n \<Rightarrow>
                Inr [BaseAlongside base_wit n
                       (map (\<lambda>other_suffix_list. base_wit @ concat other_suffix_list)
                          (filter (\<lambda>other_suffix_list. length suffix_list > 0) suffix_lists))
                       app_id])
         else Inr []) #
        map (check_suffix fh mt co al mu rdgs_by_wit app_id suffix_lists
               (base_wit @ concat suffix_list))
          (enumerate 0 suffix_list))"

definition check_base_wit ::
  "string list \<Rightarrow> string list \<Rightarrow> string list \<Rightarrow> string list \<Rightarrow> string list \<Rightarrow>
   (string \<times> string option list) list \<Rightarrow> string option \<Rightarrow>
   string \<times> string list list \<Rightarrow> error + report list" where
  "check_base_wit fh mt co al mu rdgs_by_wit app_id p =
     (let base_wit = fst p; suffix_lists = snd p in
      if length suffix_lists = 1 then
        (if length (suffix_lists ! 0) \<noteq> 0 then
           (let subwit = base_wit @ concat (suffix_lists ! 0) in
            case first_reading rdgs_by_wit subwit of
              Inl e \<Rightarrow> Inl e
            | Inr n \<Rightarrow> Inr [LoneSubwitness subwit n app_id])
         else Inr [])
      else
        concat_results
          (map (check_suffix_list fh mt co al mu rdgs_by_wit app_id base_wit suffix_lists)
             suffix_lists))"

definition check_app ::
  "string list \<Rightarrow> string list \<Rightarrow> string list \<Rightarrow> string list \<Rightarrow> string list \<Rightarrow>
   v_app \<Rightarrow> error + report list" where
  "check_app fh mt co al mu app =
     (let st = collect_citations fh mt co al mu (v_rdgs app) in
      concat_results (map (check_base_wit fh mt co al mu (fst st) (v_id app)) (snd st)))"

text \<open>
  The function itself: every \<^verbatim>\<open>app\<close> of the document in turn.  The result is the list
  of messages printed, or the exception that ended the run.
\<close>

definition find_unmatched_witness_pairs ::
  "v_app list \<Rightarrow> string list \<Rightarrow> string list \<Rightarrow> string list \<Rightarrow> string list \<Rightarrow> string list \<Rightarrow>
   error + report list" where
  "find_unmatched_witness_pairs xml first_hand_suffixes main_text_suffixes corrector_suffixes
       alternate_suffixes multiple_suffixes =
     concat_results
       (map (check_app first_hand_suffixes main_text_suffixes corrector_suffixes
               alternate_suffixes multiple_suffixes) xml)"

section \<open>Positive Apparatus Expander\<close>

text \<open>
  \<^verbatim>\<open>witness_pattern.match(wit)\<close> for the pattern \<^verbatim>\<open>^[LP]*\d+S*\<close>: after any run of
  the letters \<^verbatim>\<open>L\<close> and \<^verbatim>\<open>P\<close> there must be a digit; nothing is required of the rest.
\<close>

definition witness_pattern_match :: "string \<Rightarrow> bool" where
  "witness_pattern_match wit =
     (case dropWhile (\<lambda>c. c = CHR ''L'' \<or> c = CHR ''P'') wit of
        [] \<Rightarrow> False
      | c # cs \<Rightarrow> is_digit c)"

text \<open>\<^verbatim>\<open>s.replace("rell", new)\<close>: every occurrence, left to right, without overlap.\<close>

function replace_rell :: "string \<Rightarrow> string \<Rightarrow> string" where
  "replace_rell new s =
     (if s = [] then []
      else if take 4 s = ''rell'' then new @ replace_rell new (drop 4 s)
      else hd s # replace_rell new (tl s))"
  by pat_completeness auto
termination
  by (relation "measure (\<lambda>(new, s). length s)") auto

declare replace_rell.simps [simp del]

text \<open>
  \<^verbatim>\<open>get_sorted_wits\<close>.  The key of one citation is the index of its base witness followed
  by the indices of its suffixes; a base that is not in \<^verbatim>\<open>wit_ind_map\<close> raises
  \<^verbatim>\<open>KeyError\<close>.  The outer \<open>option\<close> is \<open>None\<close> when \<^verbatim>\<open>parse_wit\<close> does not return.
\<close>

definition wit_key ::
  "(string \<times> nat) list \<Rightarrow> (string \<times> nat) list \<Rightarrow> string \<Rightarrow> (error + nat list) option" where
  "wit_key wit_ind_map suffix_ind_map wit =
     (if witness_pattern_match wit then
        (case parse_wit wit (map fst suffix_ind_map) of
           None \<Rightarrow> None
         | Some (base_wit, wit_suffixes) \<Rightarrow>
             Some (case lookup wit_ind_map base_wit of
                     Inl e \<Rightarrow> Inl e
                   | Inr i \<Rightarrow>
                       (case map_results (map (lookup suffix_ind_map) wit_suffixes) of
                          Inl e \<Rightarrow> Inl e
                        | Inr js \<Rightarrow> Inr (i # js))))
      else
        Some (case lookup wit_ind_map wit of Inl e \<Rightarrow> Inl e | Inr i \<Rightarrow> Inr [i]))"

fun wit_keys ::
  "(string \<times> nat) list \<Rightarrow> (string \<times> nat) list \<Rightarrow> string list \<Rightarrow>
   (error + (string \<times> nat list) list) option" where
  "wit_keys wit_ind_map suffix_ind_map [] = Some (Inr [])"
| "wit_keys wit_ind_map suffix_ind_map (wit # wits) =
     (case wit_key wit_ind_map suffix_ind_map wit of
        None \<Rightarrow> None
      | Some (Inl e) \<Rightarrow> Some (Inl e)
      | Some (Inr k) \<Rightarrow>
          (case wit_keys wit_ind_map suffix_ind_map wits of
             None \<Rightarrow> None
           | Some (Inl e) \<Rightarrow> Some (Inl e)
           | Some (Inr ks) \<Rightarrow> Some (Inr ((wit, k) # ks))))"

text \<open>
  \<^verbatim>\<open>sorted(wits, key=lambda wit: keys_by_wit[wit])\<close>: Python's sort is stable and compares
  the key tuples lexicographically, as \<^const>\<open>sort_key\<close> does on lists of numbers.
\<close>

definition get_sorted_wits ::
  "string list \<Rightarrow> (string \<times> nat) list \<Rightarrow> (string \<times> nat) list \<Rightarrow> (error + string list) option" where
  "get_sorted_wits wits wit_ind_map suffix_ind_map =
     (case wit_keys wit_ind_map suffix_ind_map wits of
        None \<Rightarrow> None
      | Some (Inl e) \<Rightarrow> Some (Inl e)
      | Some (Inr keys_by_wit) \<Rightarrow> Some (Inr (map fst (sort_key snd keys_by_wit))))"

text \<open>
  What \<^verbatim>\<open>convert_app\<close> reads of an \<^verbatim>\<open>app\<close> element: its \<^verbatim>\<open>xml:id\<close> and its \<^verbatim>\<open>rdg\<close> and
  \<^verbatim>\<open>witDetail\<close> descendants in document order, each with its \<^verbatim>\<open>n\<close> and its \<^verbatim>\<open>wit\<close>
  attribute (taken to be present).
\<close>

record n_rdg =
  n_n :: "string option"
  n_wit :: string

record n_app =
  n_id :: "string option"
  n_rdgs :: "n_rdg list"

text \<open>
  The first loop of \<^verbatim>\<open>convert_app\<close>: the set \<^verbatim>\<open>base_wits_cited\<close>, kept as a list since
  only membership is asked of it.
\<close>

definition cited_base :: "(string \<times> nat) list \<Rightarrow> string \<Rightarrow> string option" where
  "cited_base suffix_ind_map wit =
     (if witness_pattern_match wit then
        map_option fst (parse_wit wit (map fst suffix_ind_map))
      else Some wit)"

fun cite_all :: "(string \<times> nat) list \<Rightarrow> string list \<Rightarrow> string list \<Rightarrow> string list option" where
  "cite_all suffix_ind_map [] cited = Some cited"
| "cite_all suffix_ind_map (wit # wits) cited =
     (if wit = ''rell'' then cite_all suffix_ind_map wits cited
      else
        (case cited_base suffix_ind_map wit of
           None \<Rightarrow> None
         | Some base_wit \<Rightarrow> cite_all suffix_ind_map wits (List.insert base_wit cited)))"

definition base_wits_cited :: "(string \<times> nat) list \<Rightarrow> n_rdg list \<Rightarrow> string list option" where
  "base_wits_cited suffix_ind_map rdgs =
     cite_all suffix_ind_map (concat (map (\<lambda>rdg. py_split (n_wit rdg)) rdgs)) []"

definition uncited_wits :: "(string \<times> nat) list \<Rightarrow> string list \<Rightarrow> string list" where
  "uncited_wits wit_ind_map cited = filter (\<lambda>wit. wit \<notin> set cited) (map fst wit_ind_map)"

text \<open>
  The second loop: the token is replaced in the attribute, then the sort is tried.  The
  \<^verbatim>\<open>except\<close> clause prints the unit, the reading and the exception and leaves the
  attribute as the replacement wrote it.  The messages are returned with the readings.
\<close>

definition convert_rdg ::
  "string option \<Rightarrow> (string \<times> nat) list \<Rightarrow> (string \<times> nat) list \<Rightarrow> string \<Rightarrow> n_rdg \<Rightarrow>
   (n_rdg \<times> (string option \<times> string option \<times> error) list) option" where
  "convert_rdg app_id wit_ind_map suffix_ind_map uncited_wits_str rdg =
     (let replaced = replace_rell uncited_wits_str (n_wit rdg) in
      case get_sorted_wits (py_split replaced) wit_ind_map suffix_ind_map of
        None \<Rightarrow> None
      | Some (Inl e) \<Rightarrow> Some (rdg\<lparr>n_wit := replaced\<rparr>, [(app_id, n_n rdg, e)])
      | Some (Inr sorted_wits) \<Rightarrow> Some (rdg\<lparr>n_wit := py_join '' '' sorted_wits\<rparr>, []))"

fun convert_rdgs ::
  "string option \<Rightarrow> (string \<times> nat) list \<Rightarrow> (string \<times> nat) list \<Rightarrow> string \<Rightarrow> n_rdg list \<Rightarrow>
   (n_rdg list \<times> (string option \<times> string option \<times> error) list) option" where
  "convert_rdgs app_id wit_ind_map suffix_ind_map uncited_wits_str [] = Some ([], [])"
| "convert_rdgs app_id wit_ind_map suffix_ind_map uncited_wits_str (rdg # rdgs) =
     (case convert_rdg app_id wit_ind_map suffix_ind_map uncited_wits_str rdg of
        None \<Rightarrow> None
      | Some (rdg', msgs) \<Rightarrow>
          (case convert_rdgs app_id wit_ind_map suffix_ind_map uncited_wits_str rdgs of
             None \<Rightarrow> None
           | Some (rdgs', msgs') \<Rightarrow> Some (rdg' # rdgs', msgs @ msgs')))"

definition convert_app ::
  "n_app \<Rightarrow> (string \<times> nat) list \<Rightarrow> (string \<times> nat) list \<Rightarrow>
   (n_app \<times> (string option \<times> string option \<times> error) list) option" where
  "convert_app xml wit_ind_map suffix_ind_map =
     (case base_wits_cited suffix_ind_map (n_rdgs xml) of
        None \<Rightarrow> None
      | Some cited \<Rightarrow>
          (case convert_rdgs (n_id xml) wit_ind_map suffix_ind_map
                  (py_join '' '' (uncited_wits wit_ind_map cited)) (n_rdgs xml) of
             None \<Rightarrow> None
           | Some (rdgs', msgs) \<Rightarrow> Some (xml\<lparr>n_rdgs := rdgs'\<rparr>, msgs)))"

fun convert_apps ::
  "(string \<times> nat) list \<Rightarrow> (string \<times> nat) list \<Rightarrow> n_app list \<Rightarrow>
   (n_app list \<times> (string option \<times> string option \<times> error) list) option" where
  "convert_apps wit_ind_map suffix_ind_map [] = Some ([], [])"
| "convert_apps wit_ind_map suffix_ind_map (app # apps) =
     (case convert_app app wit_ind_map suffix_ind_map of
        None \<Rightarrow> None
      | Some (app', msgs) \<Rightarrow>
          (case convert_apps wit_ind_map suffix_ind_map apps of
             None \<Rightarrow> None
           | Some (apps', msgs') \<Rightarrow> Some (app' # apps', msgs @ msgs')))"

text \<open>
  \<^verbatim>\<open>convert_negative_to_positive_apparatus(xml, suffixes)\<close>, with the document given as
  the witness list of its \<^verbatim>\<open>listWit\<close> and its \<^verbatim>\<open>app\<close> elements.
\<close>

definition convert_negative_to_positive_apparatus ::
  "string list \<Rightarrow> n_app list \<Rightarrow> string list \<Rightarrow>
   (n_app list \<times> (string option \<times> string option \<times> error) list) option" where
  "convert_negative_to_positive_apparatus list_wit apps suffixes =
     convert_apps (index_map list_wit) (index_map suffixes) apps"

section \<open>Merge Engine\<close>

definition LAC_SYMBOL :: string where
  "LAC_SYMBOL = ''Z''"

text \<open>
  What \<^verbatim>\<open>merge_variation_units.py\<close> reads of a document: the sigla of its \<^verbatim>\<open>listWit\<close>,
  and for every \<^verbatim>\<open>app\<close> element its \<^verbatim>\<open>xml:id\<close>, its \<^verbatim>\<open>n\<close> and its \<^verbatim>\<open>rdg\<close> and
  \<^verbatim>\<open>witDetail\<close> descendants in document order, each with the attributes and the content
  the script looks at.  An absent attribute is \<open>None\<close>.
\<close>

record m_rdg =
  m_id :: "string option"
  m_n :: "string option"
  m_wit :: "string option"
  m_type :: "string option"
  m_cause :: "string option"
  m_ana :: "string option"
  m_lang :: "string option"
  m_text :: "string option"
  m_children :: "xml list"

record m_app =
  a_id :: "string option"
  a_n :: "string option"
  a_rdgs :: "m_rdg list"

text \<open>The class \<^verbatim>\<open>Collation\<close> with its four attributes.\<close>

record collation =
  witnesses :: "string list"
  witness_index_by_id :: "(string \<times> nat) list"
  variation_units :: "m_app list"
  reading_to_index_maps :: "(string \<times> nat) list list"

text \<open>The identifier of an element: its \<^verbatim>\<open>xml:id\<close>, else its \<^verbatim>\<open>n\<close>, else the empty string.\<close>

definition ident :: "string option \<Rightarrow> string option \<Rightarrow> string" where
  "ident xml_id n =
     (case xml_id of Some i \<Rightarrow> i | None \<Rightarrow> (case n of Some m \<Rightarrow> m | None \<Rightarrow> []))"

definition reading_to_index_map :: "m_rdg list \<Rightarrow> (string \<times> nat) list" where
  "reading_to_index_map rdgs =
     (let m = fold (\<lambda>p d. AList.update (ident (m_id (snd p)) (m_n (snd p))) (fst p) d)
                (enumerate 0 rdgs) []
      in if LAC_SYMBOL \<in> fst ` set m then m else AList.update LAC_SYMBOL (length m) m)"

definition Collation :: "string list \<Rightarrow> m_app list \<Rightarrow> string list \<Rightarrow> collation" where
  "Collation list_wit apps target_variation_units =
     (let units = filter (\<lambda>app. ident (a_id app) (a_n app) \<in> set target_variation_units) apps in
      \<lparr>witnesses = list_wit,
       witness_index_by_id = index_map list_wit,
       variation_units = units,
       reading_to_index_maps = map (\<lambda>app. reading_to_index_map (a_rdgs app)) units\<rparr>)"

text \<open>
  \<^verbatim>\<open>get_base_wit\<close>: the final character is stripped until the siglum is a key of
  \<^verbatim>\<open>witness_index_by_id\<close> or nothing is left; what is left is returned.
\<close>

function base_wit_loop :: "(string \<times> nat) list \<Rightarrow> string \<Rightarrow> string" where
  "base_wit_loop index base_wit =
     (if length base_wit > 0 then
        (if base_wit \<in> fst ` set index then base_wit
         else base_wit_loop index (butlast base_wit))
      else base_wit)"
  by pat_completeness auto
termination
  by (relation "measure (\<lambda>(index, base_wit). length base_wit)") auto

declare base_wit_loop.simps [simp del]

definition get_base_wit :: "collation \<Rightarrow> string \<Rightarrow> string" where
  "get_base_wit c wit = base_wit_loop (witness_index_by_id c) wit"

text \<open>\<^verbatim>\<open>rdg.get("wit").replace("#", "").split()\<close>.\<close>

definition citations :: "m_rdg \<Rightarrow> error + string list" where
  "citations rdg =
     (case m_wit rdg of
        None \<Rightarrow> Inl AttributeError
      | Some w \<Rightarrow> Inr (py_split (filter (\<lambda>c. c \<noteq> CHR ''#'') w)))"

text \<open>
  The dictionary \<^verbatim>\<open>sigla_by_base_witness\<close> holds a Python \<^verbatim>\<open>set\<close> of strings for every
  base witness.  The order in which a \<^verbatim>\<open>for\<close> loop visits such a set is fixed by the
  hashes of its members, which Python draws anew for every run; the model keeps the
  members of a set as a list and takes the visiting order as the parameter \<open>ord\<close>,
  applied wherever the script iterates over a set.

  The first pass registers the suffixed sigla.  It prints a message for a siglum without a
  base witness; the messages are returned with the result.
\<close>

definition set_add :: "string \<Rightarrow> string list \<Rightarrow> string list" where
  "set_add x S = (if x \<in> set S then S else S @ [x])"

definition register_wit ::
  "(string list \<Rightarrow> string list) \<Rightarrow> collation \<Rightarrow> string \<Rightarrow>
   string list \<times> (string \<times> string list) list \<Rightarrow>
   string list \<times> (error + (string \<times> string list) list)" where
  "register_wit ord c wit st =
     (let base_wit = get_base_wit c wit;
          msgs = (if base_wit = [] then fst st @ [wit] else fst st)
      in
        if wit = base_wit then (msgs, Inr (snd st))
        else
          (case lookup (snd st) base_wit of
             Inl e \<Rightarrow> (msgs, Inl e)
           | Inr S \<Rightarrow>
               if list_ex (\<lambda>siglum. str_in wit siglum \<and> siglum \<noteq> wit) (ord S)
               then (msgs, Inr (snd st))
               else
                 (msgs,
                  Inr (AList.update base_wit
                         (set_add wit
                            (case find (\<lambda>siglum. str_in siglum wit \<and> siglum \<noteq> wit) (ord S) of
                               None \<Rightarrow> S
                             | Some siglum \<Rightarrow> remove1 siglum S))
                         (snd st)))))"

fun register_wits ::
  "(string list \<Rightarrow> string list) \<Rightarrow> collation \<Rightarrow> string list \<Rightarrow>
   string list \<times> (string \<times> string list) list \<Rightarrow>
   string list \<times> (error + (string \<times> string list) list)" where
  "register_wits ord c [] st = (fst st, Inr (snd st))"
| "register_wits ord c (wit # wits) st =
     (case register_wit ord c wit st of
        (msgs, Inl e) \<Rightarrow> (msgs, Inl e)
      | (msgs, Inr sigla) \<Rightarrow> register_wits ord c wits (msgs, sigla))"

fun register_rdgs ::
  "(string list \<Rightarrow> string list) \<Rightarrow> collation \<Rightarrow> m_rdg list \<Rightarrow>
   string list \<times> (string \<times> string list) list \<Rightarrow>
   string list \<times> (error + (string \<times> string list) list)" where
  "register_rdgs ord c [] st = (fst st, Inr (snd st))"
| "register_rdgs ord c (rdg # rdgs) st =
     (case citations rdg of
        Inl e \<Rightarrow> (fst st, Inl e)
      | Inr wits \<Rightarrow>
          (case register_wits ord c wits st of
             (msgs, Inl e) \<Rightarrow> (msgs, Inl e)
           | (msgs, Inr sigla) \<Rightarrow> register_rdgs ord c rdgs (msgs, sigla)))"

definition sigla_by_base_witness ::
  "(string list \<Rightarrow> string list) \<Rightarrow> collation \<Rightarrow>
   string list \<times> (error + (string \<times> string list) list)" where
  "sigla_by_base_witness ord c =
     register_rdgs ord c (concat (map a_rdgs (variation_units c)))
       ([], fold (\<lambda>wit d. AList.update wit [] d) (witnesses c) [])"

text \<open>
  The attestation matrix \<^verbatim>\<open>reading_lists_by_siglum\<close>: one row of reading identifiers per
  key, one column per unit.  A base witness without registered sigla gets a row of its
  own, any other base witness one row for each of its sigla.
\<close>

fun init_reading_lists ::
  "(string list \<Rightarrow> string list) \<Rightarrow> (string \<times> string list) list \<Rightarrow> nat \<Rightarrow> string list \<Rightarrow>
   (string \<times> string list) list \<Rightarrow> error + (string \<times> string list) list" where
  "init_reading_lists ord sigla n [] M = Inr M"
| "init_reading_lists ord sigla n (base_wit # ws) M =
     (case lookup sigla base_wit of
        Inl e \<Rightarrow> Inl e
      | Inr S \<Rightarrow>
          if length S = 0
          then init_reading_lists ord sigla n ws
                 (AList.update base_wit (replicate n LAC_SYMBOL) M)
          else init_reading_lists ord sigla n ws
                 (fold (\<lambda>siglum d. AList.update siglum (replicate n LAC_SYMBOL) d) (ord S) M))"

text \<open>\<^verbatim>\<open>reading_lists_by_siglum[k][i] = rdg_id\<close>.\<close>

definition set_reading ::
  "nat \<Rightarrow> string \<Rightarrow> string \<Rightarrow> (string \<times> string list) list \<Rightarrow>
   error + (string \<times> string list) list" where
  "set_reading i rdg_id k M =
     (case lookup M k of
        Inl e \<Rightarrow> Inl e
      | Inr row \<Rightarrow>
          if i < length row then Inr (AList.update k (row[i := rdg_id]) M) else Inl IndexError)"

fun set_readings ::
  "nat \<Rightarrow> string \<Rightarrow> string list \<Rightarrow> (string \<times> string list) list \<Rightarrow>
   error + (string \<times> string list) list" where
  "set_readings i rdg_id [] M = Inr M"
| "set_readings i rdg_id (k # ks) M =
     (case set_reading i rdg_id k M of
        Inl e \<Rightarrow> Inl e
      | Inr M' \<Rightarrow> set_readings i rdg_id ks M')"

text \<open>
  One citation of the second pass.  A siglum with a row of its own sets that row; any other
  siglum sets the row of every registered siglum of its base witness that contains it.
\<close>

definition populate_wit ::
  "(string list \<Rightarrow> string list) \<Rightarrow> collation \<Rightarrow> (string \<times> string list) list \<Rightarrow>
   nat \<Rightarrow> string \<Rightarrow> string \<Rightarrow> (string \<times> string list) list \<Rightarrow>
   error + (string \<times> string list) list" where
  "populate_wit ord c sigla i rdg_id wit M =
     (if wit \<in> fst ` set M then set_reading i rdg_id wit M
      else
        (case lookup sigla (get_base_wit c wit) of
           Inl e \<Rightarrow> Inl e
         | Inr S \<Rightarrow> set_readings i rdg_id (filter (\<lambda>siglum. str_in wit siglum) (ord S)) M))"

fun populate_wits ::
  "(string list \<Rightarrow> string list) \<Rightarrow> collation \<Rightarrow> (string \<times> string list) list \<Rightarrow>
   nat \<Rightarrow> string \<Rightarrow> string list \<Rightarrow> (string \<times> string list) list \<Rightarrow>
   error + (string \<times> string list) list" where
  "populate_wits ord c sigla i rdg_id [] M = Inr M"
| "populate_wits ord c sigla i rdg_id (wit # wits) M =
     (case populate_wit ord c sigla i rdg_id wit M of
        Inl e \<Rightarrow> Inl e
      | Inr M' \<Rightarrow> populate_wits ord c sigla i rdg_id wits M')"

fun populate_rdgs ::
  "(string list \<Rightarrow> string list) \<Rightarrow> collation \<Rightarrow> (string \<times> string list) list \<Rightarrow>
   nat \<Rightarrow> m_rdg list \<Rightarrow> (string \<times> string list) list \<Rightarrow>
   error + (string \<times> string list) list" where
  "populate_rdgs ord c sigla i [] M = Inr M"
| "populate_rdgs ord c sigla i (rdg # rdgs) M =
     (case citations rdg of
        Inl e \<Rightarrow> Inl e
      | Inr wits \<Rightarrow>
          (case populate_wits ord c sigla i (ident (m_id rdg) (m_n rdg)) wits M of
             Inl e \<Rightarrow> Inl e
           | Inr M' \<Rightarrow> populate_rdgs ord c sigla i rdgs M'))"

fun populate_units ::
  "(string list \<Rightarrow> string list) \<Rightarrow> collation \<Rightarrow> (string \<times> string list) list \<Rightarrow>
   (nat \<times> m_app) list \<Rightarrow> (string \<times> string list) list \<Rightarrow>
   error + (string \<times> string list) list" where
  "populate_units ord c sigla [] M = Inr M"
| "populate_units ord c sigla (p # ps) M =
     (case populate_rdgs ord c sigla (fst p) (a_rdgs (snd p)) M of
        Inl e \<Rightarrow> Inl e
      | Inr M' \<Rightarrow> populate_units ord c sigla ps M')"

definition reading_lists_by_siglum ::
  "(string list \<Rightarrow> string list) \<Rightarrow> collation \<Rightarrow> (string \<times> string list) list \<Rightarrow>
   error + (string \<times> string list) list" where
  "reading_lists_by_siglum ord c sigla =
     bind_err
       (init_reading_lists ord sigla (length (variation_units c)) (witnesses c) [])
       (populate_units ord c sigla (enumerate 0 (variation_units c)))"

text \<open>
  Grouping the keys by their row, written as a comma-separated string, and sorting each
  group by the index of the base witness.
\<close>

definition wits_by_reading_sequence ::
  "collation \<Rightarrow> (string \<times> string list) list \<Rightarrow> error + (string \<times> string list) list" where
  "wits_by_reading_sequence c M =
     (let groups = fold (\<lambda>p d. dict_append (py_join '','' (snd p)) (fst p) d) M [] in
      map_results
        (map (\<lambda>g. bind_err
                     (sorted_by (\<lambda>w. lookup (witness_index_by_id c) (get_base_wit c w)) (snd g))
                     (\<lambda>wits. Inr (fst g, wits)))
           groups))"

text \<open>
  The dictionary \<^verbatim>\<open>rdg_by_app_rdg\<close> from a unit identifier and a reading identifier to
  the reading, with a placeholder for the lacuna of a unit that has none.
\<close>

definition lac_placeholder :: m_rdg where
  "lac_placeholder =
     \<lparr>m_id = None, m_n = Some LAC_SYMBOL, m_wit = None, m_type = Some ''lac'',
      m_cause = None, m_ana = None, m_lang = None, m_text = None, m_children = []\<rparr>"

definition rdg_by_app_rdg :: "collation \<Rightarrow> ((string \<times> string) \<times> m_rdg) list" where
  "rdg_by_app_rdg c =
     fold (\<lambda>app d.
        (let app_id = ident (a_id app) (a_n app);
             d' = fold (\<lambda>rdg. AList.update (app_id, ident (m_id rdg) (m_n rdg)) rdg)
                    (a_rdgs app) d
         in if (app_id, LAC_SYMBOL) \<in> fst ` set d' then d'
            else AList.update (app_id, LAC_SYMBOL) lac_placeholder d'))
       (variation_units c) []"

text \<open>The key that orders the merged readings: per unit, the index of the reading.\<close>

definition sequence_key :: "collation \<Rightarrow> string \<Rightarrow> error + nat list" where
  "sequence_key c reading_sequence =
     map_results
       (map (\<lambda>p. if fst p < length (reading_to_index_maps c)
                  then lookup (reading_to_index_maps c ! fst p) (snd p)
                  else Inl IndexError)
          (enumerate 0 (py_split_on (CHR '','') reading_sequence)))"

text \<open>One merged reading: its attributes and one \<^verbatim>\<open>seg\<close> per unit.\<close>

definition add_unique :: "string option \<Rightarrow> string list \<Rightarrow> string list" where
  "add_unique v xs = (case v of None \<Rightarrow> xs | Some x \<Rightarrow> if x \<in> set xs then xs else xs @ [x])"

definition seg_of :: "m_rdg \<Rightarrow> xml" where
  "seg_of rdg =
     (if length (m_children rdg) > 0 then
        Element ''seg'' [] (Some [CHR 0x0A, CHR 0x09, CHR 0x09, CHR 0x09])
          (butlast (m_children rdg) @
             [set_tail (Some [CHR 0x0A, CHR 0x09, CHR 0x09]) (last (m_children rdg))])
          (Some [CHR 0x0A, CHR 0x09, CHR 0x09])
      else Element ''seg'' [] (m_text rdg) [] (Some [CHR 0x0A, CHR 0x09, CHR 0x09]))"

definition source_readings :: "collation \<Rightarrow> string \<Rightarrow> error + m_rdg list" where
  "source_readings c rdg_sequence =
     map_results
       (map (\<lambda>p. if fst p < length (variation_units c) then
                    (case map_of (rdg_by_app_rdg c)
                            (ident (a_id (variation_units c ! fst p))
                               (a_n (variation_units c ! fst p)), snd p) of
                       None \<Rightarrow> Inl (KeyError (snd p))
                     | Some rdg \<Rightarrow> Inr rdg)
                  else Inl IndexError)
          (enumerate 0 (py_split_on (CHR '','') rdg_sequence)))"

definition optional_attribute :: "string \<Rightarrow> string list \<Rightarrow> (string \<times> string) list" where
  "optional_attribute k vs = (if length vs > 0 then [(k, py_join '' '' vs)] else [])"

definition merged_rdg :: "collation \<Rightarrow> string \<times> string list \<Rightarrow> error + xml" where
  "merged_rdg c g =
     bind_err (source_readings c (fst g))
       (\<lambda>rdgs.
          let segs = map seg_of rdgs;
              segs' = (if length segs > 0
                       then butlast segs @ [set_tail (Some [CHR 0x0A, CHR 0x09]) (last segs)]
                       else segs)
          in Inr (Element ''rdg''
                    ([(''n'', fst g), (''wit'', py_join '' '' (snd g))] @
                     optional_attribute ''type'' (fold (\<lambda>r. add_unique (m_type r)) rdgs []) @
                     optional_attribute ''cause'' (fold (\<lambda>r. add_unique (m_cause r)) rdgs []) @
                     optional_attribute ''ana'' (fold (\<lambda>r. add_unique (m_ana r)) rdgs []) @
                     optional_attribute ''xml:lang'' (fold (\<lambda>r. add_unique (m_lang r)) rdgs []))
                    (Some [CHR 0x0A, CHR 0x09, CHR 0x09]) segs' (Some [CHR 0x0A, CHR 0x09])))"

text \<open>
  \<^verbatim>\<open>merge_variation_units\<close>: the messages of the first pass and the merged \<^verbatim>\<open>app\<close>
  element, or the exception that ended the run.
\<close>

definition merge_variation_units ::
  "(string list \<Rightarrow> string list) \<Rightarrow> collation \<Rightarrow> string list \<times> (error + xml)" where
  "merge_variation_units ord c =
     (case sigla_by_base_witness ord c of
        (msgs, Inl e) \<Rightarrow> (msgs, Inl e)
      | (msgs, Inr sigla) \<Rightarrow>
          (msgs,
           bind_err (reading_lists_by_siglum ord c sigla)
             (\<lambda>M. bind_err (wits_by_reading_sequence c M)
                (\<lambda>groups. bind_err (sorted_by (sequence_key c) (map fst groups))
                   (\<lambda>rdg_sequences.
                      bind_err
                        (map_results
                           (map (\<lambda>s. case map_of groups s of
                                        None \<Rightarrow> Inl (KeyError s)
                                      | Some wits \<Rightarrow> merged_rdg c (s, wits))
                              rdg_sequences))
                        (\<lambda>merged.
                           Inr (Element ''app'' [] (Some [CHR 0x0A, CHR 0x09]) merged None)))))))"

section \<open>Renumbering and Sort Engine\<close>

text \<open>
  \<^verbatim>\<open>transpose_variant_readings.py\<close> rewrites an \<^verbatim>\<open>app\<close> element in place.  A
  function of the script that mutates an element returns the element as it is afterwards.
\<close>

definition has_tag :: "string \<Rightarrow> xml \<Rightarrow> bool" where
  "has_tag t x \<longleftrightarrow> \<not> is_comment x \<and> raw_tag x = t"

text \<open>
  The key functions.  A comment takes the key of the sibling before it, or a fixed first
  key when it has none; \<^verbatim>\<open>sorted\<close> computes the keys from left to right while the
  children are still in their old order, so the keys of a list of siblings are computed in
  one pass that remembers the key before.
\<close>

fun keys_with_comments ::
  "(xml \<Rightarrow> error + 'k) \<Rightarrow> 'k \<Rightarrow> 'k option \<Rightarrow> xml list \<Rightarrow> error + 'k list" where
  "keys_with_comments f first prev [] = Inr []"
| "keys_with_comments f first prev (x # xs) =
     bind_err
       (if is_comment x then Inr (case prev of None \<Rightarrow> first | Some k \<Rightarrow> k) else f x)
       (\<lambda>k. bind_err (keys_with_comments f first (Some k) xs) (\<lambda>ks. Inr (k # ks)))"

definition sorted_children ::
  "(xml \<Rightarrow> error + 'k::linorder) \<Rightarrow> 'k \<Rightarrow> xml list \<Rightarrow> error + xml list" where
  "sorted_children f first xs =
     bind_err (keys_with_comments f first None xs) (\<lambda>ks. Inr (sort_with_keys ks xs))"

definition reading_reference_key :: "string \<Rightarrow> error + int" where
  "reading_reference_key rdg_str =
     (case rdg_str of
        [] \<Rightarrow> Inl IndexError
      | c # cs \<Rightarrow>
          if c = CHR ''#'' then
            (case py_split_on (CHR ''R'') rdg_str of
               a # b # rest \<Rightarrow> py_int b
             | _ \<Rightarrow> Inl IndexError)
          else py_int rdg_str)"

text \<open>
  \<^verbatim>\<open>rdg_key\<close> on an element that is not a comment.  The number of a reading is split at
  \<^verbatim>\<open>-\<close>; each part sets one of five positions, chosen by its first character.
\<close>

definition rdg_n_part :: "int list \<Rightarrow> string \<Rightarrow> error + int list" where
  "rdg_n_part rdg_n_list part =
     (case part of
        [] \<Rightarrow> Inl IndexError
      | c # cs \<Rightarrow>
          if c = CHR ''v'' then
            bind_err (py_int (py_strip ''v'' part)) (\<lambda>i. Inr (rdg_n_list[4 := i]))
          else if c = CHR ''f'' then
            bind_err (py_int (py_strip ''f'' part)) (\<lambda>i. Inr (rdg_n_list[3 := i]))
          else if c = CHR ''o'' then
            bind_err (py_int (py_strip ''o'' part)) (\<lambda>i. Inr (rdg_n_list[2 := i]))
          else if c = CHR ''s'' then
            bind_err (py_int (py_strip ''s'' part)) (\<lambda>i. Inr (rdg_n_list[1 := i]))
          else bind_err (py_int part) (\<lambda>i. Inr (rdg_n_list[0 := i])))"

fun rdg_n_parts :: "int list \<Rightarrow> string list \<Rightarrow> error + int list" where
  "rdg_n_parts rdg_n_list [] = Inr rdg_n_list"
| "rdg_n_parts rdg_n_list (part # parts) =
     bind_err (rdg_n_part rdg_n_list part) (\<lambda>l. rdg_n_parts l parts)"

definition rdg_key :: "xml \<Rightarrow> error + int list" where
  "rdg_key x =
     (if raw_tag x = ''lem'' then Inr [0]
      else if raw_tag x = ''rdg'' then
        (case xml_get x ''n'' of
           None \<Rightarrow> Inl AttributeError
         | Some n \<Rightarrow>
             bind_err (rdg_n_parts [0, 0, 0, 0, 0] (py_split_on (CHR ''-'') n))
               (\<lambda>l. Inr (1 # l)))
      else if raw_tag x = ''witDetail'' then
        (if xml_get x ''type'' = Some ''ambiguous'' then
           (case xml_get x ''target'' of
              None \<Rightarrow> Inl AttributeError
            | Some target \<Rightarrow>
                bind_err (map_results (map py_int (py_split target)))
                  (\<lambda>ts.
                     case xml_get x ''n'' of
                       None \<Rightarrow> Inl AttributeError
                     | Some n \<Rightarrow>
                         (if length (py_split_on (CHR ''-'') n) > 1 then
                            bind_err (py_int (py_split_on (CHR ''-'') n ! 1))
                              (\<lambda>i. Inr ([2, 0] @ ts @ [i]))
                          else Inr ([2, 0] @ ts))))
         else if xml_get x ''type'' = Some ''overlap'' then Inr [2, 1]
         else if xml_get x ''type'' = Some ''lac'' then Inr [2, 2]
         else Inr [2])
      else if raw_tag x = ''note'' then Inr [3]
      else Inr [])"

definition certainty_key :: "xml \<Rightarrow> error + int" where
  "certainty_key x =
     (case xml_get x ''target'' of
        None \<Rightarrow> Inl TypeError
      | Some target \<Rightarrow> reading_reference_key target)"

text \<open>The key of a relation is the pair of its tuples, kept as a list of two lists.\<close>

definition relation_key :: "xml \<Rightarrow> error + int list list" where
  "relation_key x =
     (if xml_get x ''ana'' = Some ''#Byz'' then Inr [[999], [999]]
      else
        (case xml_get x ''active'' of
           None \<Rightarrow> Inl AttributeError
         | Some active \<Rightarrow>
             bind_err (map_results (map reading_reference_key (py_split active)))
               (\<lambda>active_keys.
                  case xml_get x ''passive'' of
                    None \<Rightarrow> Inl AttributeError
                  | Some passive \<Rightarrow>
                      bind_err (map_results (map reading_reference_key (py_split passive)))
                        (\<lambda>passive_keys. Inr [active_keys, passive_keys]))))"

text \<open>
  Rewriting one reference: a reference to an \<^verbatim>\<open>xml:id\<close> has the part after its first
  \<^verbatim>\<open>R\<close> replaced, any other reference is looked up as a whole.  \<^verbatim>\<open>process_wit_detail\<close>
  puts the \<^verbatim>\<open>#\<close> back in front, \<^verbatim>\<open>process_relation\<close> does not.
\<close>

definition relabel_reference ::
  "string \<Rightarrow> (string \<times> string) list \<Rightarrow> string \<Rightarrow> error + string" where
  "relabel_reference hash transposition_dict target =
     (case target of
        [] \<Rightarrow> Inl IndexError
      | c # cs \<Rightarrow>
          if c = CHR ''#'' then
            (case py_split_on (CHR ''R'') (py_strip ''#'' target) of
               a # b # rest \<Rightarrow>
                 bind_err (lookup transposition_dict b)
                   (\<lambda>b'. Inr (hash @ py_join ''R'' (a # b' # rest)))
             | _ \<Rightarrow> Inl IndexError)
          else lookup transposition_dict target)"

text \<open>
  The part of \<^verbatim>\<open>process_rdg\<close> and \<^verbatim>\<open>process_wit_detail\<close> that follows the new number:
  an \<^verbatim>\<open>xml:id\<close>, when there is one, has the part after its first \<^verbatim>\<open>R\<close> replaced by the
  new value of \<^verbatim>\<open>n\<close>.
\<close>

definition relabel_id :: "xml \<Rightarrow> error + xml" where
  "relabel_id x =
     (case xml_get x ''xml:id'' of
        None \<Rightarrow> Inr x
      | Some rdg_id \<Rightarrow>
          (case py_split_on (CHR ''R'') rdg_id of
             a # b # rest \<Rightarrow>
               (case xml_get x ''n'' of
                  None \<Rightarrow> Inl TypeError
                | Some n \<Rightarrow> Inr (xml_set ''xml:id'' (py_join ''R'' (a # n # rest)) x))
           | _ \<Rightarrow> Inl IndexError))"

definition process_lem :: "(string \<times> string) list \<Rightarrow> xml \<Rightarrow> error + xml" where
  "process_lem transposition_dict x = Inr x"

definition process_rdg :: "(string \<times> string) list \<Rightarrow> xml \<Rightarrow> error + xml" where
  "process_rdg transposition_dict x =
     (case xml_get x ''n'' of
        None \<Rightarrow> Inl AttributeError
      | Some rdg_n \<Rightarrow>
          (case py_split_on (CHR ''-'') rdg_n of
             [] \<Rightarrow> Inl IndexError
           | p # ps \<Rightarrow>
               bind_err (lookup transposition_dict p)
                 (\<lambda>p'. relabel_id (xml_set ''n'' (py_join ''-'' (p' # ps)) x))))"

definition process_certainty :: "(string \<times> string) list \<Rightarrow> xml \<Rightarrow> error + xml" where
  "process_certainty transposition_dict x =
     (case xml_get x ''target'' of
        None \<Rightarrow> Inl TypeError
      | Some target \<Rightarrow>
          (case target of
             [] \<Rightarrow> Inl IndexError
           | c # cs \<Rightarrow>
               bind_err
                 (if c = CHR ''#'' then relabel_reference ''#'' transposition_dict target
                  else Inr target)
                 (\<lambda>target'.
                    bind_err (lookup transposition_dict target')
                      (\<lambda>v. Inr (xml_set ''target'' v x)))))"

definition process_wit_detail :: "(string \<times> string) list \<Rightarrow> xml \<Rightarrow> error + xml" where
  "process_wit_detail transposition_dict x =
     (case xml_get x ''n'' of
        None \<Rightarrow> Inl AttributeError
      | Some rdg_n \<Rightarrow>
          (case py_split_on (CHR ''-'') rdg_n of
             [] \<Rightarrow> Inl IndexError
           | p # ps \<Rightarrow>
               bind_err
                 (map_results
                    (map (lookup transposition_dict) (py_split_on (CHR ''/'') (py_strip ''W'' p))))
                 (\<lambda>rdg_n_targets.
                    bind_err (sorted_by reading_reference_key rdg_n_targets)
                      (\<lambda>rdg_n_targets'.
                         bind_err
                           (relabel_id
                              (xml_set ''n''
                                 (py_join ''-'' ((''W'' @ py_join ''/'' rdg_n_targets') # ps)) x))
                           (\<lambda>x1.
                              case xml_get x1 ''target'' of
                                None \<Rightarrow> Inl AttributeError
                              | Some target \<Rightarrow>
                                  bind_err
                                    (map_results
                                       (map (relabel_reference ''#'' transposition_dict)
                                          (py_split target)))
                                    (\<lambda>targets.
                                       bind_err (sorted_by reading_reference_key targets)
                                         (\<lambda>targets'.
                                            let x2 = xml_set ''target'' (py_join '' '' targets') x1 in
                                            bind_err
                                              (map_results
                                                 (map (\<lambda>c. if has_tag ''certainty'' c
                                                             then process_certainty transposition_dict c
                                                             else Inr c)
                                                    (children x2)))
                                              (\<lambda>ks.
                                                 if list_ex (has_tag ''certainty'') ks then
                                                   bind_err (sorted_children certainty_key (- 1) ks)
                                                     (\<lambda>ks'. Inr (set_children ks' x2))
                                                 else Inr (set_children ks x2)))))))))"

text \<open>
  \<^verbatim>\<open>process_relation\<close>.  The active references are rewritten one by one and sorted after
  the loop.  For the passive references the call of \<^verbatim>\<open>sorted\<close> stands inside the loop:
  the loop keeps reading the list it started on, whose entry at the current index is still
  the old reference, while each assignment and each sort work on the list that the sort
  before returned.
\<close>

fun passive_loop ::
  "(string \<times> string) list \<Rightarrow> (nat \<times> string) list \<Rightarrow> string list \<Rightarrow> error + string list" where
  "passive_loop transposition_dict [] passive_targets = Inr passive_targets"
| "passive_loop transposition_dict (p # ps) passive_targets =
     bind_err (relabel_reference [] transposition_dict (snd p))
       (\<lambda>t. bind_err (sorted_by reading_reference_key (passive_targets[fst p := t]))
               (\<lambda>passive_targets'. passive_loop transposition_dict ps passive_targets'))"

definition process_relation :: "(string \<times> string) list \<Rightarrow> xml \<Rightarrow> error + xml" where
  "process_relation transposition_dict x =
     (case xml_get x ''active'' of
        None \<Rightarrow> Inl AttributeError
      | Some active \<Rightarrow>
          bind_err (map_results (map (relabel_reference [] transposition_dict) (py_split active)))
            (\<lambda>active_targets.
               bind_err (sorted_by reading_reference_key active_targets)
                 (\<lambda>active_targets'.
                    let x1 = xml_set ''active'' (py_join '' '' active_targets') x in
                    case xml_get x1 ''passive'' of
                      None \<Rightarrow> Inl AttributeError
                    | Some passive \<Rightarrow>
                        bind_err
                          (passive_loop transposition_dict (enumerate 0 (py_split passive))
                             (py_split passive))
                          (\<lambda>passive_targets.
                             Inr (xml_set ''passive'' (py_join '' '' passive_targets) x1)))))"

definition process_list_relation :: "(string \<times> string) list \<Rightarrow> xml \<Rightarrow> error + xml" where
  "process_list_relation transposition_dict x =
     bind_err
       (map_results
          (map (\<lambda>c. if has_tag ''relation'' c then process_relation transposition_dict c
                      else Inr c)
             (children x)))
       (\<lambda>ks. bind_err (sorted_children relation_key [[- 1], [- 1]] ks)
                (\<lambda>ks'. Inr (set_children ks' x)))"

definition process_note :: "(string \<times> string) list \<Rightarrow> xml \<Rightarrow> error + xml" where
  "process_note transposition_dict x =
     bind_err
       (map_results
          (map (\<lambda>c. if has_tag ''listRelation'' c
                      then process_list_relation transposition_dict c else Inr c)
             (children x)))
       (\<lambda>ks. Inr (set_children ks x))"

definition process_child :: "(string \<times> string) list \<Rightarrow> xml \<Rightarrow> error + xml" where
  "process_child transposition_dict child =
     (if is_comment child then Inr child
      else if raw_tag child = ''lem'' then process_lem transposition_dict child
      else if raw_tag child = ''rdg'' then process_rdg transposition_dict child
      else if raw_tag child = ''witDetail'' then
        (if xml_get child ''type'' = Some ''ambiguous''
         then process_wit_detail transposition_dict child else Inr child)
      else if raw_tag child = ''note'' then process_note transposition_dict child
      else Inr child)"

definition process_app :: "(string \<times> string) list \<Rightarrow> xml \<Rightarrow> error + xml" where
  "process_app transposition_dict x =
     bind_err (map_results (map (process_child transposition_dict) (children x)))
       (\<lambda>ks. bind_err (sorted_children rdg_key [- 1] ks) (\<lambda>ks'. Inr (set_children ks' x)))"

text \<open>
  What \<^verbatim>\<open>main\<close> does with the sequence it is given: the sequence must name exactly the
  readings without a \<^verbatim>\<open>type\<close>, and each number is mapped to its one-based position.
\<close>

definition transposition_dict_of :: "string list \<Rightarrow> (string \<times> string) list" where
  "transposition_dict_of sequence =
     fold (\<lambda>p d. AList.update (snd p) (py_str (fst p + 1)) d) (enumerate 0 sequence) []"

definition substantive_reading_numbers :: "xml \<Rightarrow> string option list" where
  "substantive_reading_numbers app =
     map (\<lambda>rdg. xml_get rdg ''n'')
       (filter (\<lambda>rdg. has_tag ''rdg'' rdg \<and> xml_get rdg ''type'' = None) (children app))"

definition transpose :: "xml \<Rightarrow> string list \<Rightarrow> error + xml" where
  "transpose app sequence =
     (if set (map Some sequence) \<noteq> set (substantive_reading_numbers app)
      then Inl SequenceMismatch
      else process_app (transposition_dict_of sequence) app)"

section \<open>Properties of the Siglum Resolver\<close>

lemma endswith_Nil: "endswith b []"
  by (simp add: endswith_def)

lemma endswith_rejoin: "endswith b s \<Longrightarrow> s \<noteq> [] \<Longrightarrow> slice_to_neg b (length s) @ s = b"
  by (auto simp: endswith_def slice_to_neg_def) (metis append_take_drop_id)

lemma parse_wit_loop_returns:
  assumes ret: "parse_wit_loop T b ss = Some r"
  shows "[] \<notin> set T \<and> fst r @ concat (snd r) = b @ concat ss \<and> length (snd r) \<le> length ss + length b"
proof (rule parse_wit_loop.raw_induct
    [where P = "\<lambda>T b ss r. [] \<notin> set T \<and> fst r @ concat (snd r) = b @ concat ss
       \<and> length (snd r) \<le> length ss + length b", OF _ ret])
  fix f T b ss r
  assume IH: "\<And>T b ss r. f T b ss = Some r \<Longrightarrow>
      [] \<notin> set T \<and> fst r @ concat (snd r) = b @ concat ss \<and> length (snd r) \<le> length ss + length b"
    and eq: "(case find (endswith b) T of None \<Rightarrow> Some (b, ss)
       | Some suffix \<Rightarrow> f T (slice_to_neg b (length suffix)) (suffix # ss)) = Some r"
  show "[] \<notin> set T \<and> fst r @ concat (snd r) = b @ concat ss \<and> length (snd r) \<le> length ss + length b"
  proof (cases "find (endswith b) T")
    case None
    then have "[] \<notin> set T" using endswith_Nil by (auto simp: find_None_iff)
    with None eq show ?thesis by auto
  next
    case (Some s)
    with eq have "f T (slice_to_neg b (length s)) (s # ss) = Some r" by simp
    then have *: "[] \<notin> set T" 
      and **: "fst r @ concat (snd r) = slice_to_neg b (length s) @ concat (s # ss)"
      and ***: "length (snd r) \<le> length (s # ss) + length (slice_to_neg b (length s))"
      using IH by blast+
    from Some have e: "endswith b s" and "s \<in> set T" by (auto simp: find_Some_iff)
    with * have ne: "s \<noteq> []" by auto
    from e ne have "slice_to_neg b (length s) @ s = b" by (rule endswith_rejoin)
    moreover from e ne have "length (slice_to_neg b (length s)) < length b" by (rule slice_to_neg_shorter)
    ultimately show ?thesis using * ** *** by (auto simp flip: append_assoc)
  qed
qed

lemma parse_wit_loop_terminates:
  assumes ne: "[] \<notin> set T"
  shows "\<exists>r. parse_wit_loop T b ss = Some r"
proof (induction b arbitrary: ss rule: length_induct)
  case (1 b)
  show ?case
  proof (cases "find (endswith b) T")
    case None
    then show ?thesis by (subst parse_wit_loop.simps) simp
  next
    case (Some s)
    then have e: "endswith b s" and "s \<in> set T" by (auto simp: find_Some_iff)
    with ne have "s \<noteq> []" by auto
    with e have "length (slice_to_neg b (length s)) < length b" by (rule slice_to_neg_shorter)
    with 1 obtain r where "parse_wit_loop T (slice_to_neg b (length s)) (s # ss) = Some r" by blast
    with Some show ?thesis by (subst parse_wit_loop.simps) simp
  qed
qed

lemma parse_wit_roles_loop_roundtrip:
  "parse_wit_roles_loop fh mt co al mu b ss = (b', ss') \<Longrightarrow> b' @ concat ss' = b @ concat ss \<and> length ss' \<le> length ss + length b"
proof (induction fh mt co al mu b ss rule: parse_wit_roles_loop.induct)
  case (1 fh mt co al mu b ss)
  let ?s = "choose_suffix b fh mt co al mu"
  show ?case
  proof (cases "?s = []")
    case True
    with "1.prems" show ?thesis by (simp add: parse_wit_roles_loop.simps [of fh mt co al mu b ss])
  next
    case False
    with "1.prems" have "parse_wit_roles_loop fh mt co al mu (slice_to_neg b (length ?s)) (?s # ss) = (b', ss')"
      by (simp add: parse_wit_roles_loop.simps [of fh mt co al mu b ss] Let_def)
    with False "1.IH" have "b' @ concat ss' = slice_to_neg b (length ?s) @ concat (?s # ss) \<and> length ss' \<le> length (?s # ss) + length (slice_to_neg b (length ?s))" by simp
    moreover from False choose_suffix_cases [of b fh mt co al mu] have e: "endswith b ?s" by simp
    moreover from e False have "slice_to_neg b (length ?s) @ ?s = b" by (rule endswith_rejoin)
    moreover from e False have "length (slice_to_neg b (length ?s)) < length b" by (rule slice_to_neg_shorter)
    ultimately show ?thesis by (auto simp flip: append_assoc)
  qed
qed

text \<open>
  Claim C1.  Whenever \<^verbatim>\<open>parse_wit\<close> returns, the returned base siglum followed by the
  returned suffixes, in their returned order, is the citation it was given.  This holds for
  the single-table variant of the Positive Apparatus Expander (which returns only when no
  empty suffix is registered) and for the five-role variant of the Validator (which always
  returns); it does not depend on the base being a registered witness, so it covers every
  successful decomposition.
\<close>

theorem parse_wit_reconcatenates:
  "(parse_wit w T = Some (b, ss) \<longrightarrow> b @ concat ss = w) \<and>
   (parse_wit_roles w fh mt co al mu = (b', ss') \<longrightarrow> b' @ concat ss' = w)"
  using parse_wit_loop_returns [of T w "[]" "(b, ss)"]
    parse_wit_roles_loop_roundtrip [of fh mt co al mu w "[]" b' ss']
  by (simp add: parse_wit_def parse_wit_roles_def)

lemma parse_wit_X1: "parse_wit ''X1*C1'' [''*'', ''C1''] = Some (''X1'', [''*'', ''C1''])"
  by (simp add: parse_wit_def parse_wit_loop.simps endswith_def slice_to_neg_def)

lemma parse_wit_roles_X1:
  "parse_wit_roles ''X1*C1'' [''*''] [] [''C1''] [] [] = (''X1'', [''*'', ''C1''])"
  by (simp add: parse_wit_roles_def parse_wit_roles_loop.simps choose_suffix_def
      first_match_def endswith_def slice_to_neg_def)

theorem parse_wit_reconcatenates_witness:
  "parse_wit ''X1*C1'' [''*'', ''C1''] = Some (''X1'', [''*'', ''C1'']) \<and>
   parse_wit_roles ''X1*C1'' [''*''] [] [''C1''] [] [] = (''X1'', [''*'', ''C1'']) \<and>
   ''X1'' @ concat [''*'', ''C1''] = ''X1*C1''"
  using parse_wit_reconcatenates [of "''X1*C1''" "[''*'', ''C1'']" "''X1''" "[''*'', ''C1'']"
      "[''*'']" "[]" "[''C1'']" "[]" "[]" "''X1''" "[''*'', ''C1'']"]
    parse_wit_X1 parse_wit_roles_X1
  by simp

text \<open>
  Claim C10.  With every registered suffix non-empty, \<^verbatim>\<open>parse_wit\<close> returns, and it
  strips at most as many suffixes (one per loop iteration) as the citation has characters.
  Without that precondition termination is lost: as soon as the empty string is registered
  in the single table, the loop of \<^verbatim>\<open>negative_to_positive_apparatus.py\<close> never returns.
  The five-role variant treats an empty match as no match and always returns, within the
  same bound.
\<close>

theorem parse_wit_terminates:
  "((\<forall>s \<in> set T. s \<noteq> []) \<longrightarrow> (\<exists>b ss. parse_wit w T = Some (b, ss) \<and> length ss \<le> length w)) \<and>
   ([] \<in> set T \<longrightarrow> parse_wit w T = None) \<and>
   length (snd (parse_wit_roles w fh mt co al mu)) \<le> length w"
proof (intro conjI impI)
  assume "\<forall>s \<in> set T. s \<noteq> []"
  then have "[] \<notin> set T" by auto
  then obtain r where r: "parse_wit_loop T w [] = Some r"
    using parse_wit_loop_terminates by blast
  then have "length (snd r) \<le> length w"
    using parse_wit_loop_returns [of T w "[]" r] by simp
  with r show "\<exists>b ss. parse_wit w T = Some (b, ss) \<and> length ss \<le> length w"
    by (cases r) (simp add: parse_wit_def)
next
  assume "[] \<in> set T"
  then show "parse_wit w T = None"
    using parse_wit_loop_returns [of T w "[]"] by (cases "parse_wit w T") (auto simp: parse_wit_def)
next
  show "length (snd (parse_wit_roles w fh mt co al mu)) \<le> length w"
    using parse_wit_roles_loop_roundtrip [of fh mt co al mu w "[]"]
    by (cases "parse_wit_roles_loop fh mt co al mu w []") (simp add: parse_wit_roles_def)
qed

theorem parse_wit_terminates_witness:
  "[] \<notin> set [''*'', ''C1''] \<and>
   (\<exists>b ss. parse_wit ''X1*C1'' [''*'', ''C1''] = Some (b, ss) \<and> length ss \<le> length ''X1*C1'') \<and>
   [] \<in> set [''*'', ''''] \<and> parse_wit ''X1*C1'' [''*'', ''''] = None"
  using parse_wit_terminates [of "[''*'', ''C1'']" "''X1*C1''" "[]" "[]" "[]" "[]" "[]"]
    parse_wit_terminates [of "[''*'', '''']" "''X1*C1''" "[]" "[]" "[]" "[]" "[]"]
  by simp

section \<open>Properties of the Apparatus Validator\<close>

lemmas validator_defs =
  find_unmatched_witness_pairs_def check_app_def collect_citations_def collect_citation_def
  check_base_wit_def check_suffix_list_def check_suffix_def suffix_matched_def
  unmatched_reports_def first_reading_def dict_append_def py_split_def is_space_def
  parse_wit_roles_def parse_wit_roles_loop.simps choose_suffix_def first_match_def
  endswith_def slice_to_neg_def Let_def enumerate_eq_zip

text \<open>
  Claim C9.  With \<^verbatim>\<open>*\<close> registered as a first-hand suffix and \<^verbatim>\<open>C1\<close> as a corrector
  suffix, a unit that cites \<^verbatim>\<open>X1*\<close> and \<^verbatim>\<open>X1C1\<close> (under one reading, as in the
  specification's example, or under two readings) yields no message at all, so nothing
  is reported for base witness \<^verbatim>\<open>X1\<close>.  Once the \<^verbatim>\<open>X1C1\<close> citation is removed, the
  first hand \<^verbatim>\<open>X1*\<close> is the only citation of its base witness and is reported as
  unmatched: the function prints the message for a subwitness that occurs without any
  corresponding subwitness, with the reading that cites it and the unit.  The unit
  identifier and the reading numbers are arbitrary.
\<close>

theorem unmatched_pairs_X1_example:
  "find_unmatched_witness_pairs
     [\<lparr>v_id = u, v_rdgs = [\<lparr>v_n = n, v_wit = ''X1* X1C1''\<rparr>]\<rparr>]
     [''*''] [] [''C1''] [] [] = Inr [] \<and>
   find_unmatched_witness_pairs
     [\<lparr>v_id = u, v_rdgs = [\<lparr>v_n = n, v_wit = ''X1*''\<rparr>]\<rparr>]
     [''*''] [] [''C1''] [] [] = Inr [LoneSubwitness ''X1*'' n u] \<and>
   find_unmatched_witness_pairs
     [\<lparr>v_id = u, v_rdgs = [\<lparr>v_n = n, v_wit = ''X1*''\<rparr>, \<lparr>v_n = m, v_wit = ''X1C1''\<rparr>]\<rparr>]
     [''*''] [] [''C1''] [] [] = Inr [] \<and>
   find_unmatched_witness_pairs
     [\<lparr>v_id = u, v_rdgs = [\<lparr>v_n = n, v_wit = ''X1*''\<rparr>, \<lparr>v_n = m, v_wit = ''''\<rparr>]\<rparr>]
     [''*''] [] [''C1''] [] [] = Inr [LoneSubwitness ''X1*'' n u]"
  by (simp add: validator_defs)

section \<open>Properties of the Positive Apparatus Expander\<close>

lemma fold_update_keys:
  "fst ` set (fold (\<lambda>p d. AList.update (snd p) (fst p) d) ps d0) = snd ` set ps \<union> fst ` set d0"
  by (induction ps arbitrary: d0) (auto simp: dom_update)

lemma index_map_keys: "set (map fst (index_map xs)) = set xs"
proof -
  have "snd ` set (enumerate 0 xs) = set xs"
    by (metis list.set_map map_snd_enumerate)
  then show ?thesis by (simp add: index_map_def fold_update_keys)
qed

lemma parse_wit_returns: "[] \<notin> set T \<Longrightarrow> \<exists>r. parse_wit w T = Some r"
  unfolding parse_wit_def by (rule parse_wit_loop_terminates)

lemma wit_key_returns:
  assumes "[] \<notin> set (map fst sm)"
  shows "\<exists>r. wit_key wm sm w = Some r"
proof (cases "witness_pattern_match w")
  case True
  from assms obtain b ss where "parse_wit w (map fst sm) = Some (b, ss)"
    using parse_wit_returns by fastforce
  with True show ?thesis by (simp add: wit_key_def)
next
  case False
  then show ?thesis by (simp add: wit_key_def)
qed

lemma wit_keys_returns:
  assumes "[] \<notin> set (map fst sm)"
  shows "\<exists>r. wit_keys wm sm ws = Some r"
proof (induction ws)
  case Nil
  show ?case by simp
next
  case (Cons w ws)
  from assms obtain k where "wit_key wm sm w = Some k" using wit_key_returns by blast
  with Cons show ?case by (auto split: sum.splits)
qed

lemma get_sorted_wits_returns:
  assumes "[] \<notin> set (map fst sm)"
  shows "\<exists>r. get_sorted_wits ws wm sm = Some r"
proof -
  from assms obtain r where "wit_keys wm sm ws = Some r" using wit_keys_returns by blast
  then show ?thesis by (auto simp: get_sorted_wits_def split: sum.splits)
qed

lemma convert_rdg_returns:
  assumes "[] \<notin> set (map fst sm)"
  shows "\<exists>r' m. convert_rdg a wm sm u r = Some (r', m)"
proof -
  from assms obtain x where "get_sorted_wits (py_split (replace_rell u (n_wit r))) wm sm = Some x"
    using get_sorted_wits_returns by blast
  then show ?thesis by (auto simp: convert_rdg_def split: sum.splits)
qed

lemma convert_rdgs_returns:
  assumes "[] \<notin> set (map fst sm)"
  shows "\<exists>rs' msgs. convert_rdgs a wm sm u rs = Some (rs', msgs) \<and>
     list_all2 (\<lambda>r r'. \<exists>m. convert_rdg a wm sm u r = Some (r', m) \<and> set m \<subseteq> set msgs) rs rs'"
proof (induction rs)
  case Nil
  show ?case by simp
next
  case (Cons r rs)
  from assms obtain r' m where r: "convert_rdg a wm sm u r = Some (r', m)"
    using convert_rdg_returns by blast
  from Cons obtain rs' msgs where rs: "convert_rdgs a wm sm u rs = Some (rs', msgs)"
    and all: "list_all2 (\<lambda>r r'. \<exists>m. convert_rdg a wm sm u r = Some (r', m) \<and> set m \<subseteq> set msgs) rs rs'"
    by blast
  from all have "list_all2 (\<lambda>r r'. \<exists>m'. convert_rdg a wm sm u r = Some (r', m') \<and> set m' \<subseteq> set (m @ msgs)) rs rs'"
    by (rule list_all2_mono) auto
  with r rs show ?case by auto
qed

lemma cite_all_returns:
  assumes "[] \<notin> set (map fst sm)"
  shows "\<exists>c. cite_all sm ws cited = Some c"
proof (induction ws arbitrary: cited)
  case Nil
  show ?case by simp
next
  case (Cons w ws)
  from assms obtain r where "parse_wit w (map fst sm) = Some r" using parse_wit_returns by blast
  then obtain b where "cited_base sm w = Some b"
    by (cases "witness_pattern_match w") (auto simp: cited_base_def)
  with Cons show ?case by auto
qed

lemma convert_app_returns:
  assumes "[] \<notin> set (map fst sm)"
  shows "\<exists>app' msgs cited. convert_app app wm sm = Some (app', msgs) \<and>
     base_wits_cited sm (n_rdgs app) = Some cited \<and> n_id app' = n_id app \<and>
     list_all2 (\<lambda>r r'. \<exists>m. convert_rdg (n_id app) wm sm (py_join '' '' (uncited_wits wm cited)) r = Some (r', m)
        \<and> set m \<subseteq> set msgs) (n_rdgs app) (n_rdgs app')"
proof -
  from assms obtain cited where c: "base_wits_cited sm (n_rdgs app) = Some cited"
    unfolding base_wits_cited_def using cite_all_returns by blast
  from assms obtain rs' msgs where
    "convert_rdgs (n_id app) wm sm (py_join '' '' (uncited_wits wm cited)) (n_rdgs app) = Some (rs', msgs)"
    "list_all2 (\<lambda>r r'. \<exists>m. convert_rdg (n_id app) wm sm (py_join '' '' (uncited_wits wm cited)) r = Some (r', m)
        \<and> set m \<subseteq> set msgs) (n_rdgs app) rs'"
    using convert_rdgs_returns by blast
  with c show ?thesis by (simp add: convert_app_def)
qed

lemma convert_apps_returns:
  assumes "[] \<notin> set (map fst sm)"
  shows "\<exists>apps' msgs. convert_apps wm sm apps = Some (apps', msgs) \<and>
     list_all2 (\<lambda>app app'. \<exists>m. convert_app app wm sm = Some (app', m) \<and> set m \<subseteq> set msgs) apps apps'"
proof (induction apps)
  case Nil
  show ?case by simp
next
  case (Cons app apps)
  from assms obtain app' m where r: "convert_app app wm sm = Some (app', m)"
    using convert_app_returns by blast
  from Cons obtain apps' msgs where rs: "convert_apps wm sm apps = Some (apps', msgs)"
    and all: "list_all2 (\<lambda>app app'. \<exists>m. convert_app app wm sm = Some (app', m) \<and> set m \<subseteq> set msgs) apps apps'"
    by blast
  from all have "list_all2 (\<lambda>app app'. \<exists>m'. convert_app app wm sm = Some (app', m') \<and> set m' \<subseteq> set (m @ msgs)) apps apps'"
    by (rule list_all2_mono) auto
  with r rs show ?case by auto
qed

lemma split_acc_word:
  "\<not> list_ex is_space x \<Longrightarrow> split_acc cur (x @ rest) = split_acc (cur @ x) rest"
  by (induction x arbitrary: cur) auto

lemma is_space_blank: "is_space (CHR '' '')"
  by (simp add: is_space_def)

lemma split_join_words:
  "list_all (\<lambda>x. x \<noteq> [] \<and> \<not> list_ex is_space x) xs \<Longrightarrow> py_split (py_join '' '' xs) = xs"
proof (induction xs rule: induct_list012)
  case 1
  show ?case by (simp add: py_split_def)
next
  case (2 x)
  then show ?case using split_acc_word [of x "[]" "[]"] by (simp add: py_split_def)
next
  case (3 x y ys)
  then have "py_split (py_join '' '' (y # ys)) = y # ys" by simp
  moreover from 3 have "x \<noteq> []" "\<not> list_ex is_space x" by simp_all
  ultimately show ?case
    using split_acc_word [of x "[]" "CHR '' '' # py_join '' '' (y # ys)"]
    by (simp add: py_split_def is_space_blank)
qed

lemma wit_keys_fst: "wit_keys wm sm ws = Some (Inr ks) \<Longrightarrow> map fst ks = ws"
  by (induction ws arbitrary: ks) (auto split: option.splits sum.splits)

lemma get_sorted_wits_set:
  "get_sorted_wits ws wm sm = Some (Inr sorted_wits) \<Longrightarrow> mset sorted_wits = mset ws"
proof -
  assume "get_sorted_wits ws wm sm = Some (Inr sorted_wits)"
  then obtain ks where ks: "wit_keys wm sm ws = Some (Inr ks)" and s: "sorted_wits = map fst (sort_key snd ks)"
    by (auto simp: get_sorted_wits_def split: option.splits sum.splits)
  from ks have "map fst ks = ws" by (rule wit_keys_fst)
  with s show ?thesis by (metis mset_map mset_sort)
qed

lemma replace_rell_token: "replace_rell new ''rell'' = new"
  by (simp add: replace_rell.simps)

lemma convert_rdg_token:
  assumes c: "convert_rdg a wm sm (py_join '' '' U) r = Some (r', m)"
    and tok: "n_wit r = ''rell''"
    and wf: "list_all (\<lambda>x. x \<noteq> [] \<and> \<not> list_ex is_space x) U"
  shows "set (py_split (n_wit r')) = set U"
proof -
  have sp: "py_split (replace_rell (py_join '' '' U) (n_wit r)) = U"
    using tok wf by (simp add: replace_rell_token split_join_words)
  show ?thesis
  proof (cases "get_sorted_wits U wm sm")
    case None
    with c sp show ?thesis by (simp add: convert_rdg_def)
  next
    case (Some res)
    show ?thesis
    proof (cases res)
      case (Inl e)
      with c sp Some have "n_wit r' = replace_rell (py_join '' '' U) (n_wit r)"
        by (auto simp: convert_rdg_def)
      with sp show ?thesis by simp
    next
      case (Inr sorted_wits)
      with c sp Some have w: "n_wit r' = py_join '' '' sorted_wits"
        by (auto simp: convert_rdg_def)
      from Some Inr have ms: "mset sorted_wits = mset U" using get_sorted_wits_set by simp
      then have "set sorted_wits = set U" by (rule mset_eq_setD)
      with wf have "list_all (\<lambda>x. x \<noteq> [] \<and> \<not> list_ex is_space x) sorted_wits"
        by (simp add: list_all_iff)
      then have "py_split (py_join '' '' sorted_wits) = sorted_wits" by (rule split_join_words)
      with w \<open>set sorted_wits = set U\<close> show ?thesis by simp
    qed
  qed
qed

lemma convert_rdgs_nth:
  "convert_rdgs a wm sm u rs = Some (rs', msgs) \<Longrightarrow> i < length rs \<Longrightarrow>
   \<exists>m. convert_rdg a wm sm u (rs ! i) = Some (rs' ! i, m)"
proof (induction rs arbitrary: rs' msgs i)
  case Nil
  then show ?case by simp
next
  case (Cons r rs)
  then show ?case by (cases i) (auto split: option.splits prod.splits)
qed

lemmas expander_defs =
  convert_negative_to_positive_apparatus_def convert_app_def convert_rdg_def
  base_wits_cited_def cited_base_def uncited_wits_def get_sorted_wits_def wit_key_def
  lookup_def index_map_def witness_pattern_match_def is_digit_def replace_rell.simps
  py_split_def is_space_def enumerate_eq_zip Let_def

lemmas parse_defs = parse_wit_def parse_wit_loop.simps endswith_def slice_to_neg_def

lemma parse_wit_never_returns: "[] \<in> set T \<Longrightarrow> parse_wit w T = None"
  using parse_wit_loop_returns [of T w "[]"]
  by (cases "parse_wit w T") (auto simp: parse_wit_def)

text \<open>
  Claim C5, as stated, fails on a unit that cites a siglum outside the canonical list:
  with the canonical witnesses \<^verbatim>\<open>A\<close> and \<^verbatim>\<open>B\<close>, a reading citing \<^verbatim>\<open>X\<close> and a reading
  citing \<^verbatim>\<open>rell\<close>, the cited set is \<^verbatim>\<open>{X}\<close>, the token is replaced by \<^verbatim>\<open>A B\<close>, and the
  union of the two sets is not the canonical list.
\<close>

theorem rell_union_counterexample:
  "convert_app
     \<lparr>n_id = Some ''u1'',
      n_rdgs = [\<lparr>n_n = Some ''1'', n_wit = ''X''\<rparr>, \<lparr>n_n = Some ''2'', n_wit = ''rell''\<rparr>]\<rparr>
     (index_map [''A'', ''B'']) (index_map []) =
   Some (\<lparr>n_id = Some ''u1'',
           n_rdgs = [\<lparr>n_n = Some ''1'', n_wit = ''X''\<rparr>, \<lparr>n_n = Some ''2'', n_wit = ''A B''\<rparr>]\<rparr>,
         [(Some ''u1'', Some ''1'', KeyError ''X'')]) \<and>
   base_wits_cited (index_map [])
     [\<lparr>n_n = Some ''1'', n_wit = ''X''\<rparr>, \<lparr>n_n = Some ''2'', n_wit = ''rell''\<rparr>] = Some [''X''] \<and>
   set (py_split ''A B'') \<union> set [''X''] \<noteq> set (map fst (index_map [''A'', ''B'']))"
proof (intro conjI)
  have "''X'' \<in> set (py_split ''A B'') \<union> set [''X'']" by simp
  moreover have "''X'' \<notin> set (map fst (index_map [''A'', ''B'']))"
    by (simp add: expander_defs)
  ultimately show "set (py_split ''A B'') \<union> set [''X''] \<noteq> set (map fst (index_map [''A'', ''B'']))"
    by metis
qed (simp_all add: expander_defs parse_defs)

text \<open>
  Claim C5, amended.  Whenever \<^verbatim>\<open>convert_app\<close> returns for a unit, a reading whose
  citation list is the token \<^verbatim>\<open>rell\<close> cites afterwards exactly the canonical witnesses
  that are not in the set of cited bases (the canonical sigla being non-empty and free of
  whitespace, so that they survive the attribute's splitting).  That set and the cited set
  are disjoint; their union is the canonical list together with the cited set, hence the
  canonical list itself as soon as every cited base is canonical.
\<close>

theorem rell_expansion:
  assumes c: "convert_app app wm sm = Some (app', msgs)"
    and i: "i < length (n_rdgs app)"
    and tok: "n_wit (n_rdgs app ! i) = ''rell''"
    and wf: "list_all (\<lambda>x. x \<noteq> [] \<and> \<not> list_ex is_space x) (map fst wm)"
  shows "\<exists>cited. base_wits_cited sm (n_rdgs app) = Some cited \<and>
     set (py_split (n_wit (n_rdgs app' ! i))) = set (uncited_wits wm cited) \<and>
     set (uncited_wits wm cited) \<inter> set cited = {} \<and>
     set (uncited_wits wm cited) \<union> set cited = set (map fst wm) \<union> set cited \<and>
     (set cited \<subseteq> set (map fst wm) \<longrightarrow>
        set (uncited_wits wm cited) \<union> set cited = set (map fst wm))"
proof -
  from c obtain cited rs' where cited: "base_wits_cited sm (n_rdgs app) = Some cited"
    and rs: "convert_rdgs (n_id app) wm sm (py_join '' '' (uncited_wits wm cited)) (n_rdgs app)
               = Some (rs', msgs)"
    and app': "app' = app\<lparr>n_rdgs := rs'\<rparr>"
    by (auto simp: convert_app_def split: option.splits prod.splits)
  from rs i obtain m where
    "convert_rdg (n_id app) wm sm (py_join '' '' (uncited_wits wm cited)) (n_rdgs app ! i)
       = Some (rs' ! i, m)"
    using convert_rdgs_nth by blast
  moreover from wf
  have "list_all (\<lambda>x. x \<noteq> [] \<and> \<not> list_ex is_space x) (uncited_wits wm cited)"
    by (auto simp: uncited_wits_def list_all_iff)
  ultimately have "set (py_split (n_wit (rs' ! i))) = set (uncited_wits wm cited)"
    using tok by (intro convert_rdg_token)
  with cited app' show ?thesis by (auto simp: uncited_wits_def)
qed

theorem rell_expansion_witness:
  "convert_app
     \<lparr>n_id = Some ''u1'',
      n_rdgs = [\<lparr>n_n = Some ''1'', n_wit = ''A B''\<rparr>, \<lparr>n_n = Some ''2'', n_wit = ''rell''\<rparr>]\<rparr>
     (index_map [''A'', ''B'', ''C'', ''D'']) (index_map []) =
   Some (\<lparr>n_id = Some ''u1'',
           n_rdgs = [\<lparr>n_n = Some ''1'', n_wit = ''A B''\<rparr>, \<lparr>n_n = Some ''2'', n_wit = ''C D''\<rparr>]\<rparr>,
         []) \<and>
   (\<exists>cited.
      base_wits_cited (index_map [])
        [\<lparr>n_n = Some ''1'', n_wit = ''A B''\<rparr>, \<lparr>n_n = Some ''2'', n_wit = ''rell''\<rparr>] = Some cited \<and>
      set (py_split ''C D'') = set (uncited_wits (index_map [''A'', ''B'', ''C'', ''D'']) cited) \<and>
      set (uncited_wits (index_map [''A'', ''B'', ''C'', ''D'']) cited) \<union> set cited
        = set (map fst (index_map [''A'', ''B'', ''C'', ''D''])))"
proof -
  let ?app = "\<lparr>n_id = Some ''u1'',
      n_rdgs = [\<lparr>n_n = Some ''1'', n_wit = ''A B''\<rparr>, \<lparr>n_n = Some ''2'', n_wit = ''rell''\<rparr>]\<rparr>"
  let ?app' = "\<lparr>n_id = Some ''u1'',
      n_rdgs = [\<lparr>n_n = Some ''1'', n_wit = ''A B''\<rparr>, \<lparr>n_n = Some ''2'', n_wit = ''C D''\<rparr>]\<rparr>"
  let ?wm = "index_map [''A'', ''B'', ''C'', ''D'']"
  have c: "convert_app ?app ?wm (index_map []) = Some (?app', [])"
    by (simp add: expander_defs parse_defs)
  have i: "1 < length (n_rdgs ?app)" by simp
  have tok: "n_wit (n_rdgs ?app ! 1) = ''rell''" by simp
  have wf: "list_all (\<lambda>x. x \<noteq> [] \<and> \<not> list_ex is_space x) (map fst ?wm)"
    by (simp add: expander_defs)
  have sel: "n_rdgs ?app = [\<lparr>n_n = Some ''1'', n_wit = ''A B''\<rparr>, \<lparr>n_n = Some ''2'', n_wit = ''rell''\<rparr>]"
    "n_wit (n_rdgs ?app' ! 1) = ''C D''" by simp_all
  from rell_expansion [OF c i tok wf] obtain cited where
    1: "base_wits_cited (index_map []) (n_rdgs ?app) = Some cited"
    and 2: "set (py_split (n_wit (n_rdgs ?app' ! 1))) = set (uncited_wits ?wm cited)"
    and 3: "set cited \<subseteq> set (map fst ?wm) \<longrightarrow>
        set (uncited_wits ?wm cited) \<union> set cited = set (map fst ?wm)"
    by blast
  from 1 have "cited = [''B'', ''A'']" by (simp add: expander_defs parse_defs)
  then have "set cited \<subseteq> set (map fst ?wm)" by (simp add: expander_defs)
  with 3 have 4: "set (uncited_wits ?wm cited) \<union> set cited = set (map fst ?wm)" by simp
  from 1 2 4 have "\<exists>cited.
      base_wits_cited (index_map [])
        [\<lparr>n_n = Some ''1'', n_wit = ''A B''\<rparr>, \<lparr>n_n = Some ''2'', n_wit = ''rell''\<rparr>] = Some cited \<and>
      set (py_split ''C D'') = set (uncited_wits ?wm cited) \<and>
      set (uncited_wits ?wm cited) \<union> set cited = set (map fst ?wm)"
    unfolding sel by (intro exI [of _ cited] conjI)
  with c show ?thesis by (intro conjI)
qed

lemma convert_rdg_outcome:
  assumes "convert_rdg a wm sm u r = Some (r', m)" and "set m \<subseteq> M"
  shows "n_n r' = n_n r \<and>
     (case get_sorted_wits (py_split (replace_rell u (n_wit r))) wm sm of
        None \<Rightarrow> False
      | Some (Inl e) \<Rightarrow> n_wit r' = replace_rell u (n_wit r) \<and> (a, n_n r, e) \<in> M
      | Some (Inr sorted_wits) \<Rightarrow> n_wit r' = py_join '' '' sorted_wits)"
  using assms by (auto simp: convert_rdg_def Let_def split: option.splits sum.splits)

text \<open>
  Claim C6, as stated, fails when the empty string is among the registered suffixes:
  the first unit's unresolved citation \<^verbatim>\<open>X\<close> is reported, but \<^verbatim>\<open>parse_wit\<close> then never
  returns on the second unit's citation \<^verbatim>\<open>1\<close>, so that unit is not processed and the run
  yields no document.
\<close>

theorem convert_counterexample:
  "convert_app \<lparr>n_id = Some ''u1'', n_rdgs = [\<lparr>n_n = Some ''1'', n_wit = ''X''\<rparr>]\<rparr>
     (index_map [''1'']) (index_map ['''']) =
   Some (\<lparr>n_id = Some ''u1'', n_rdgs = [\<lparr>n_n = Some ''1'', n_wit = ''X''\<rparr>]\<rparr>,
         [(Some ''u1'', Some ''1'', KeyError ''X'')]) \<and>
   convert_negative_to_positive_apparatus [''1'']
     [\<lparr>n_id = Some ''u1'', n_rdgs = [\<lparr>n_n = Some ''1'', n_wit = ''X''\<rparr>]\<rparr>,
      \<lparr>n_id = Some ''u2'', n_rdgs = [\<lparr>n_n = Some ''1'', n_wit = ''1''\<rparr>]\<rparr>]
     [''''] = None"
  by (simp add: expander_defs parse_wit_never_returns)

text \<open>
  Claim C6, amended.  When no registered suffix is empty, the conversion of a document
  returns: it has every unit and every reading of the input, in order, and for each reading
  either the sort succeeded and the citation list is the sorted one, or the sort raised, the
  citation list is what the replacement of \<^verbatim>\<open>rell\<close> left, and a message with the unit's
  identifier, the reading's number and the exception is among those printed.
\<close>

theorem convert_reports_and_continues:
  assumes ne: "[] \<notin> set suffixes"
  shows "\<exists>apps' msgs.
     convert_negative_to_positive_apparatus list_wit apps suffixes = Some (apps', msgs) \<and>
     length apps' = length apps \<and>
     (\<forall>j < length apps.
        n_id (apps' ! j) = n_id (apps ! j) \<and>
        length (n_rdgs (apps' ! j)) = length (n_rdgs (apps ! j)) \<and>
        (\<exists>cited.
           base_wits_cited (index_map suffixes) (n_rdgs (apps ! j)) = Some cited \<and>
           (\<forall>i < length (n_rdgs (apps ! j)).
              n_n (n_rdgs (apps' ! j) ! i) = n_n (n_rdgs (apps ! j) ! i) \<and>
              (case get_sorted_wits
                      (py_split (replace_rell
                         (py_join '' '' (uncited_wits (index_map list_wit) cited))
                         (n_wit (n_rdgs (apps ! j) ! i))))
                      (index_map list_wit) (index_map suffixes) of
                 None \<Rightarrow> False
               | Some (Inl e) \<Rightarrow>
                   n_wit (n_rdgs (apps' ! j) ! i) =
                     replace_rell (py_join '' '' (uncited_wits (index_map list_wit) cited))
                       (n_wit (n_rdgs (apps ! j) ! i)) \<and>
                   (n_id (apps ! j), n_n (n_rdgs (apps ! j) ! i), e) \<in> set msgs
               | Some (Inr sorted_wits) \<Rightarrow>
                   n_wit (n_rdgs (apps' ! j) ! i) = py_join '' '' sorted_wits))))"
proof -
  let ?wm = "index_map list_wit" and ?sm = "index_map suffixes"
  from ne have ne': "[] \<notin> set (map fst ?sm)" using index_map_keys [of suffixes] by simp
  then obtain apps' msgs where ret: "convert_apps ?wm ?sm apps = Some (apps', msgs)"
    and all: "list_all2 (\<lambda>app app'. \<exists>m. convert_app app ?wm ?sm = Some (app', m) \<and>
                 set m \<subseteq> set msgs) apps apps'"
    using convert_apps_returns by blast
  from all have len: "length apps' = length apps" by (simp add: list_all2_lengthD)
  have "n_id (apps' ! j) = n_id (apps ! j) \<and>
        length (n_rdgs (apps' ! j)) = length (n_rdgs (apps ! j)) \<and>
        (\<exists>cited.
           base_wits_cited ?sm (n_rdgs (apps ! j)) = Some cited \<and>
           (\<forall>i < length (n_rdgs (apps ! j)).
              n_n (n_rdgs (apps' ! j) ! i) = n_n (n_rdgs (apps ! j) ! i) \<and>
              (case get_sorted_wits
                      (py_split (replace_rell (py_join '' '' (uncited_wits ?wm cited))
                         (n_wit (n_rdgs (apps ! j) ! i)))) ?wm ?sm of
                 None \<Rightarrow> False
               | Some (Inl e) \<Rightarrow>
                   n_wit (n_rdgs (apps' ! j) ! i) =
                     replace_rell (py_join '' '' (uncited_wits ?wm cited))
                       (n_wit (n_rdgs (apps ! j) ! i)) \<and>
                   (n_id (apps ! j), n_n (n_rdgs (apps ! j) ! i), e) \<in> set msgs
               | Some (Inr sorted_wits) \<Rightarrow>
                   n_wit (n_rdgs (apps' ! j) ! i) = py_join '' '' sorted_wits)))"
    if j: "j < length apps" for j
  proof -
    let ?app = "apps ! j" and ?app' = "apps' ! j"
    from all j obtain m where m: "convert_app ?app ?wm ?sm = Some (?app', m)"
      and sub: "set m \<subseteq> set msgs"
      by (auto simp: list_all2_conv_all_nth)
    from ne' obtain app2 m2 cited where m2: "convert_app ?app ?wm ?sm = Some (app2, m2)"
      and cited: "base_wits_cited ?sm (n_rdgs ?app) = Some cited"
      and id: "n_id app2 = n_id ?app"
      and rd: "list_all2 (\<lambda>r r'. \<exists>m'. convert_rdg (n_id ?app) ?wm ?sm
                   (py_join '' '' (uncited_wits ?wm cited)) r = Some (r', m') \<and>
                   set m' \<subseteq> set m2) (n_rdgs ?app) (n_rdgs app2)"
      using convert_app_returns by blast
    from m m2 have eq: "app2 = ?app'" "m2 = m" by simp_all
    have "n_n (n_rdgs ?app' ! i) = n_n (n_rdgs ?app ! i) \<and>
          (case get_sorted_wits
                  (py_split (replace_rell (py_join '' '' (uncited_wits ?wm cited))
                     (n_wit (n_rdgs ?app ! i)))) ?wm ?sm of
             None \<Rightarrow> False
           | Some (Inl e) \<Rightarrow>
               n_wit (n_rdgs ?app' ! i) =
                 replace_rell (py_join '' '' (uncited_wits ?wm cited)) (n_wit (n_rdgs ?app ! i)) \<and>
               (n_id ?app, n_n (n_rdgs ?app ! i), e) \<in> set msgs
           | Some (Inr sorted_wits) \<Rightarrow> n_wit (n_rdgs ?app' ! i) = py_join '' '' sorted_wits)"
      if i: "i < length (n_rdgs ?app)" for i
    proof -
      from rd i eq obtain m' where
        r: "convert_rdg (n_id ?app) ?wm ?sm (py_join '' '' (uncited_wits ?wm cited))
              (n_rdgs ?app ! i) = Some (n_rdgs ?app' ! i, m')"
        and sub': "set m' \<subseteq> set m"
        by (auto simp: list_all2_conv_all_nth)
      from sub sub' have "set m' \<subseteq> set msgs" by simp
      with r show ?thesis by (rule convert_rdg_outcome)
    qed
    moreover from rd eq have "length (n_rdgs ?app') = length (n_rdgs ?app)"
      by (simp add: list_all2_lengthD)
    ultimately show ?thesis using cited id eq by blast
  qed
  with ret len show ?thesis
    by (auto simp: convert_negative_to_positive_apparatus_def)
qed

theorem convert_reports_and_continues_witness:
  "[] \<notin> set [''*'', ''C''] \<and>
   (\<exists>apps' msgs.
      convert_negative_to_positive_apparatus [''1'', ''2'', ''A'']
        [\<lparr>n_id = Some ''u1'',
          n_rdgs = [\<lparr>n_n = Some ''1'', n_wit = ''2C 2* X 1''\<rparr>,
                    \<lparr>n_n = Some ''2'', n_wit = ''rell 2C 1 2*''\<rparr>]\<rparr>]
        [''*'', ''C''] = Some (apps', msgs) \<and>
      length apps' = 1 \<and> length (n_rdgs (apps' ! 0)) = 2) \<and>
   convert_negative_to_positive_apparatus [''1'', ''2'', ''A'']
     [\<lparr>n_id = Some ''u1'',
       n_rdgs = [\<lparr>n_n = Some ''1'', n_wit = ''2C 2* X 1''\<rparr>,
                 \<lparr>n_n = Some ''2'', n_wit = ''rell 2C 1 2*''\<rparr>]\<rparr>]
     [''*'', ''C''] =
   Some ([\<lparr>n_id = Some ''u1'',
            n_rdgs = [\<lparr>n_n = Some ''1'', n_wit = ''2C 2* X 1''\<rparr>,
                      \<lparr>n_n = Some ''2'', n_wit = ''1 2* 2C A''\<rparr>]\<rparr>],
         [(Some ''u1'', Some ''1'', KeyError ''X'')])"
proof -
  have ne: "[] \<notin> set [''*'', ''C'']" by simp
  let ?apps = "[\<lparr>n_id = Some ''u1'',
          n_rdgs = [\<lparr>n_n = Some ''1'', n_wit = ''2C 2* X 1''\<rparr>,
                    \<lparr>n_n = Some ''2'', n_wit = ''rell 2C 1 2*''\<rparr>]\<rparr>]"
  from convert_reports_and_continues [OF ne, of "[''1'', ''2'', ''A'']" ?apps]
  obtain apps' msgs where
    "convert_negative_to_positive_apparatus [''1'', ''2'', ''A''] ?apps [''*'', ''C'']
       = Some (apps', msgs)"
    "length apps' = length ?apps"
    "length (n_rdgs (apps' ! 0)) = length (n_rdgs (?apps ! 0))"
    by fastforce
  then have "\<exists>apps' msgs.
      convert_negative_to_positive_apparatus [''1'', ''2'', ''A''] ?apps [''*'', ''C'']
        = Some (apps', msgs) \<and>
      length apps' = 1 \<and> length (n_rdgs (apps' ! 0)) = 2"
    by simp
  moreover have "convert_negative_to_positive_apparatus [''1'', ''2'', ''A''] ?apps [''*'', ''C''] =
   Some ([\<lparr>n_id = Some ''u1'',
            n_rdgs = [\<lparr>n_n = Some ''1'', n_wit = ''2C 2* X 1''\<rparr>,
                      \<lparr>n_n = Some ''2'', n_wit = ''1 2* 2C A''\<rparr>]\<rparr>],
         [(Some ''u1'', Some ''1'', KeyError ''X'')])"
    by (simp add: expander_defs parse_defs)
  ultimately show ?thesis using ne by blast
qed

section \<open>Properties of the Merge Engine\<close>

lemma base_wit_loop_prefix: "\<exists>k. base_wit_loop idx w = take k w"
proof (induction idx w rule: base_wit_loop.induct)
  case (1 idx w)
  show ?case
  proof (cases "length w > 0 \<and> w \<notin> fst ` set idx")
    case True
    with 1 obtain k where "base_wit_loop idx (butlast w) = take k (butlast w)" by auto
    then have "base_wit_loop idx (butlast w) = take (min k (length w - 1)) w"
      by (simp add: butlast_conv_take)
    with True show ?thesis by (subst base_wit_loop.simps) auto
  next
    case False
    then have "base_wit_loop idx w = w" by (subst base_wit_loop.simps) auto
    then show ?thesis by (metis take_all order_refl)
  qed
qed

lemma base_wit_loop_key: "w \<in> fst ` set idx \<Longrightarrow> base_wit_loop idx w = w"
  by (subst base_wit_loop.simps) auto

lemma base_wit_loop_none:
  "list_all (\<lambda>k. take k w \<notin> fst ` set idx) [1..<Suc (length w)] \<Longrightarrow> base_wit_loop idx w = []"
proof (induction idx w rule: base_wit_loop.induct)
  case (1 idx w)
  show ?case
  proof (cases "length w > 0")
    case False
    then show ?thesis by (subst base_wit_loop.simps) simp
  next
    case True
    from "1.prems" have all: "\<forall>k. 1 \<le> k \<and> k \<le> length w \<longrightarrow> take k w \<notin> fst ` set idx"
      by (auto simp: list_all_iff)
    with True have nk: "w \<notin> fst ` set idx" by (metis One_nat_def Suc_leI order_refl take_all)
    have "list_all (\<lambda>k. take k (butlast w) \<notin> fst ` set idx) [1..<Suc (length (butlast w))]"
      unfolding list_all_iff
    proof
      fix k assume "k \<in> set [1..<Suc (length (butlast w))]"
      then have k: "1 \<le> k" "k \<le> length w - 1" by auto
      then have "take k (butlast w) = take k w" by (simp add: butlast_conv_take min_def)
      with all k show "take k (butlast w) \<notin> fst ` set idx" by auto
    qed
    with 1 True nk have "base_wit_loop idx (butlast w) = []" by simp
    with True nk show ?thesis by (subst base_wit_loop.simps) simp
  qed
qed

lemma str_in_take: "str_in (take k s) s"
  by (cases s) (simp_all add: min_def take_Cons')

lemma str_in_base: "str_in (base_wit_loop idx w) w"
  using base_wit_loop_prefix [of idx w] str_in_take by metis

lemma lookup_Inr: "lookup d k = Inr v \<longleftrightarrow> map_of d k = Some v"
  by (simp add: lookup_def split: option.splits)

lemma lookup_key: "lookup d k = Inr v \<Longrightarrow> k \<in> fst ` set d"
  by (auto simp: lookup_Inr dest: map_of_SomeD intro: rev_image_eqI)

lemma update_keys_present: "k \<in> fst ` set d \<Longrightarrow> map fst (AList.update k v d) = map fst d"
  by (simp add: update_keys)

lemma set_add_set: "set (set_add x S) = insert x (set S)"
  by (auto simp: set_add_def)

lemma register_wit_same:
  "wit = get_base_wit c wit \<Longrightarrow> snd (register_wit ord c wit st) = Inr (snd st)"
  by (simp add: register_wit_def Let_def)

lemma register_wit_other:
  assumes "wit \<noteq> get_base_wit c wit"
  shows "snd (register_wit ord c wit st) =
     (case lookup (snd st) (get_base_wit c wit) of
        Inl e \<Rightarrow> Inl e
      | Inr S \<Rightarrow>
          if list_ex (\<lambda>siglum. str_in wit siglum \<and> siglum \<noteq> wit) (ord S) then Inr (snd st)
          else Inr (AList.update (get_base_wit c wit)
                      (set_add wit
                         (case find (\<lambda>siglum. str_in siglum wit \<and> siglum \<noteq> wit) (ord S) of
                            None \<Rightarrow> S
                          | Some siglum \<Rightarrow> remove1 siglum S))
                      (snd st)))"
  using assms by (simp add: register_wit_def Let_def split: sum.split)

lemma register_wit_inv:
  assumes r: "snd (register_wit ord c wit st) = Inr sg'"
    and inv: "\<forall>base S s. map_of (snd st) base = Some S \<longrightarrow> s \<in> set S \<longrightarrow>
                get_base_wit c s = base \<and> s \<noteq> base"
  shows "map fst sg' = map fst (snd st) \<and>
     (\<forall>base S s. map_of sg' base = Some S \<longrightarrow> s \<in> set S \<longrightarrow>
        get_base_wit c s = base \<and> s \<noteq> base)"
proof (cases "wit = get_base_wit c wit")
  case True
  then have "snd (register_wit ord c wit st) = Inr (snd st)" by (rule register_wit_same)
  with r have "sg' = snd st" by simp
  with inv show ?thesis by simp
next
  case False
  let ?b = "get_base_wit c wit"
  note eq = register_wit_other [OF False, of ord st]
  show ?thesis
  proof (cases "lookup (snd st) ?b")
    case (Inl e)
    with eq r show ?thesis by simp
  next
    case (Inr S)
    show ?thesis
    proof (cases "list_ex (\<lambda>siglum. str_in wit siglum \<and> siglum \<noteq> wit) (ord S)")
      case True
      with eq r Inr have "sg' = snd st" by simp
      with inv show ?thesis by simp
    next
      case nopre: False
      define X where "X = (case find (\<lambda>siglum. str_in siglum wit \<and> siglum \<noteq> wit) (ord S) of
                               None \<Rightarrow> S | Some siglum \<Rightarrow> remove1 siglum S)"
      have X: "set X \<subseteq> set S"
      proof (cases "find (\<lambda>siglum. str_in siglum wit \<and> siglum \<noteq> wit) (ord S)")
        case None
        then show ?thesis by (simp add: X_def)
      next
        case (Some x)
        then show ?thesis by (simp add: X_def set_remove1_subset)
      qed
      from eq r Inr nopre have sg': "sg' = AList.update ?b (set_add wit X) (snd st)"
        by (simp add: X_def)
      from Inr have key: "?b \<in> fst ` set (snd st)" by (rule lookup_key)
      have "get_base_wit c s = base \<and> s \<noteq> base"
        if m: "map_of sg' base = Some T" and s: "s \<in> set T" for base T s
      proof (cases "base = ?b")
        case True
        with m sg' have "T = set_add wit X" by (simp add: update_conv')
        with s X have "s = wit \<or> s \<in> set S" by (auto simp: set_add_set)
        then show ?thesis
        proof
          assume "s = wit"
          with False True show ?thesis by auto
        next
          assume "s \<in> set S"
          moreover from Inr have "map_of (snd st) ?b = Some S" by (simp add: lookup_Inr)
          ultimately show ?thesis using inv True by blast
        qed
      next
        case False
        with m sg' have "map_of (snd st) base = Some T" by (simp add: update_conv')
        with inv s show ?thesis by blast
      qed
      then have "\<forall>base S s. map_of sg' base = Some S \<longrightarrow> s \<in> set S \<longrightarrow>
          get_base_wit c s = base \<and> s \<noteq> base"
        by (intro allI impI)
      moreover from sg' key have "map fst sg' = map fst (snd st)"
        by (simp add: update_keys_present)
      ultimately show ?thesis by (intro conjI)
    qed
  qed
qed

lemma register_wits_Cons:
  "snd (register_wits ord c (wit # wits) st) =
     (case snd (register_wit ord c wit st) of
        Inl e \<Rightarrow> Inl e
      | Inr sigla \<Rightarrow> snd (register_wits ord c wits (fst (register_wit ord c wit st), sigla)))"
  by (cases "register_wit ord c wit st") (simp split: sum.split)

lemma register_wits_inv:
  assumes r: "snd (register_wits ord c wits st) = Inr sg'"
    and inv: "\<forall>base S s. map_of (snd st) base = Some S \<longrightarrow> s \<in> set S \<longrightarrow>
                get_base_wit c s = base \<and> s \<noteq> base"
  shows "map fst sg' = map fst (snd st) \<and>
     (\<forall>base S s. map_of sg' base = Some S \<longrightarrow> s \<in> set S \<longrightarrow>
        get_base_wit c s = base \<and> s \<noteq> base)"
  using r inv
proof (induction wits arbitrary: st)
  case Nil
  then show ?case by simp
next
  case (Cons wit wits)
  show ?case
  proof (cases "snd (register_wit ord c wit st)")
    case (Inl e)
    with Cons.prems(1) show ?thesis by (simp add: register_wits_Cons del: register_wits.simps)
  next
    case (Inr sg1)
    let ?st1 = "(fst (register_wit ord c wit st), sg1)"
    from Inr Cons.prems(1) have 2: "snd (register_wits ord c wits ?st1) = Inr sg'"
      by (simp add: register_wits_Cons del: register_wits.simps)
    from register_wit_inv [OF Inr Cons.prems(2)]
    have k1: "map fst sg1 = map fst (snd st)"
      and i1: "\<forall>base S s. map_of (snd ?st1) base = Some S \<longrightarrow> s \<in> set S \<longrightarrow>
                get_base_wit c s = base \<and> s \<noteq> base"
      by simp_all
    from Cons.IH [OF 2 i1] k1 show ?thesis by simp
  qed
qed

lemma register_rdgs_Cons:
  "snd (register_rdgs ord c (rdg # rdgs) st) =
     (case citations rdg of
        Inl e \<Rightarrow> Inl e
      | Inr wits \<Rightarrow>
          (case snd (register_wits ord c wits st) of
             Inl e \<Rightarrow> Inl e
           | Inr sigla \<Rightarrow>
               snd (register_rdgs ord c rdgs (fst (register_wits ord c wits st), sigla))))"
  by (cases "citations rdg"; cases "register_wits ord c (projr (citations rdg)) st")
     (simp_all split: sum.split)

lemma register_rdgs_inv:
  assumes r: "snd (register_rdgs ord c rdgs st) = Inr sg'"
    and inv: "\<forall>base S s. map_of (snd st) base = Some S \<longrightarrow> s \<in> set S \<longrightarrow>
                get_base_wit c s = base \<and> s \<noteq> base"
  shows "map fst sg' = map fst (snd st) \<and>
     (\<forall>base S s. map_of sg' base = Some S \<longrightarrow> s \<in> set S \<longrightarrow>
        get_base_wit c s = base \<and> s \<noteq> base)"
  using r inv
proof (induction rdgs arbitrary: st)
  case Nil
  then show ?case by simp
next
  case (Cons rdg rdgs)
  show ?case
  proof (cases "citations rdg")
    case (Inl e)
    with Cons.prems(1) show ?thesis by (simp add: register_rdgs_Cons del: register_rdgs.simps)
  next
    case wits: (Inr wits)
    show ?thesis
    proof (cases "snd (register_wits ord c wits st)")
      case (Inl e)
      with wits Cons.prems(1) show ?thesis by (simp add: register_rdgs_Cons del: register_rdgs.simps)
    next
      case (Inr sg1)
      let ?st1 = "(fst (register_wits ord c wits st), sg1)"
      from Inr wits Cons.prems(1) have 2: "snd (register_rdgs ord c rdgs ?st1) = Inr sg'"
        by (simp add: register_rdgs_Cons del: register_rdgs.simps)
      from register_wits_inv [OF Inr Cons.prems(2)]
      have k1: "map fst sg1 = map fst (snd st)"
        and i1: "\<forall>base S s. map_of (snd ?st1) base = Some S \<longrightarrow> s \<in> set S \<longrightarrow>
                  get_base_wit c s = base \<and> s \<noteq> base"
        by simp_all
      from Cons.IH [OF 2 i1] k1 show ?thesis by simp
    qed
  qed
qed

lemma empty_sigla_keys:
  "fst ` set (fold (\<lambda>wit d. AList.update wit [] d) ws d0) = set ws \<union> fst ` set d0"
  by (induction ws arbitrary: d0) (auto simp: dom_update)

lemma empty_sigla_values:
  "(\<forall>k S. map_of d0 k = Some S \<longrightarrow> S = []) \<Longrightarrow>
   map_of (fold (\<lambda>wit d. AList.update wit [] d) ws d0) k = Some S \<Longrightarrow> S = []"
proof (induction ws arbitrary: d0)
  case Nil
  then show ?case by simp
next
  case (Cons w ws)
  have "\<forall>k S. map_of (AList.update w [] d0) k = Some S \<longrightarrow> S = []"
    using Cons.prems(1) by (auto simp: update_conv')
  with Cons.IH Cons.prems(2) show ?case by simp
qed

lemma sigla_by_base_witness_inv:
  assumes r: "snd (sigla_by_base_witness ord c) = Inr sigla"
  shows "fst ` set sigla = set (witnesses c) \<and>
     (\<forall>base S s. map_of sigla base = Some S \<longrightarrow> s \<in> set S \<longrightarrow>
        get_base_wit c s = base \<and> s \<noteq> base)"
proof -
  let ?d0 = "fold (\<lambda>wit d. AList.update wit ([] :: string list) d) (witnesses c) []"
  let ?st = "([] :: string list, ?d0)"
  have e: "S = []" if "map_of ?d0 base = Some S" for base S
    using that empty_sigla_values [of "[]" "witnesses c" base S] by simp
  have inv0: "\<forall>base S s. map_of (snd ?st) base = Some S \<longrightarrow> s \<in> set S \<longrightarrow>
                get_base_wit c s = base \<and> s \<noteq> base"
  proof (intro allI impI)
    fix base S and s :: string
    assume m: "map_of (snd ?st) base = Some S" and s: "s \<in> set S"
    from m have "S = []" using e by simp
    with s show "get_base_wit c s = base \<and> s \<noteq> base" by simp
  qed
  note * = register_rdgs_inv [OF r [unfolded sigla_by_base_witness_def] inv0]
  from * have "map fst sigla = map fst ?d0" by simp
  then have "set (map fst sigla) = set (map fst ?d0)" by (rule arg_cong)
  then have "fst ` set sigla = set (witnesses c)" by (simp add: empty_sigla_keys)
  moreover from * have "\<forall>base S s. map_of sigla base = Some S \<longrightarrow> s \<in> set S \<longrightarrow>
        get_base_wit c s = base \<and> s \<noteq> base" by (rule conjunct2)
  ultimately show ?thesis by (rule conjI)
qed

lemma list_all_update:
  "list_all P M \<Longrightarrow> P (k, v) \<Longrightarrow> list_all P (AList.update k v M)"
  by (induction M) auto

lemma fold_update_rows:
  "list_all P M \<Longrightarrow> (\<And>k. P (k, v)) \<Longrightarrow>
   list_all P (fold (\<lambda>siglum d. AList.update siglum v d) ks M)"
  by (induction ks arbitrary: M) (auto simp: list_all_update)

lemma fold_update_same_keys:
  "fst ` set (fold (\<lambda>siglum d. AList.update siglum v d) ks M) = set ks \<union> fst ` set M"
  by (induction ks arbitrary: M) (auto simp: dom_update)

lemma init_reading_lists_keys:
  assumes "init_reading_lists ord sigla n ws M = Inr M'"
    and "\<forall>S. set (ord S) = set S"
  shows "fst ` set M' = fst ` set M \<union>
           (\<Union>b \<in> set ws. case map_of sigla b of None \<Rightarrow> {}
                            | Some S \<Rightarrow> if S = [] then {b} else set S)"
  using assms(1)
proof (induction ws arbitrary: M)
  case Nil
  then show ?case by simp
next
  case (Cons b ws)
  show ?case
  proof (cases "map_of sigla b")
    case None
    with Cons.prems show ?thesis by (simp add: lookup_def)
  next
    case (Some S)
    show ?thesis
    proof (cases "S = []")
      case True
      with Some Cons.prems
      have "init_reading_lists ord sigla n ws (AList.update b (replicate n LAC_SYMBOL) M) = Inr M'"
        by (simp add: lookup_def)
      from Cons.IH [OF this] Some True show ?thesis by (auto simp: dom_update)
    next
      case False
      with Some Cons.prems
      have "init_reading_lists ord sigla n ws
              (fold (\<lambda>siglum d. AList.update siglum (replicate n LAC_SYMBOL) d) (ord S) M) = Inr M'"
        by (simp add: lookup_def)
      from Cons.IH [OF this] Some False assms(2) show ?thesis
        by (auto simp: fold_update_same_keys)
    qed
  qed
qed

lemma set_reading_ok:
  assumes k: "k \<in> fst ` set M" and rows: "list_all (\<lambda>p. length (snd p) = n) M" and i: "i < n"
  shows "\<exists>M'. set_reading i rid k M = Inr M' \<and> map fst M' = map fst M \<and>
     list_all (\<lambda>p. length (snd p) = n) M' \<and>
     (\<forall>k'. map_of M' k' = (if k' = k then map_option (\<lambda>row. row[i := rid]) (map_of M k')
                           else map_of M k'))"
proof -
  from k obtain row where row: "map_of M k = Some row"
    by (metis domD dom_map_of_conv_image_fst)
  then have "(k, row) \<in> set M" by (rule map_of_SomeD)
  with rows have len: "length row = n" by (auto simp: list_all_iff)
  with row i have "set_reading i rid k M = Inr (AList.update k (row[i := rid]) M)"
    by (simp add: set_reading_def lookup_def)
  moreover from k have "map fst (AList.update k (row[i := rid]) M) = map fst M"
    by (rule update_keys_present)
  moreover from rows len have "list_all (\<lambda>p. length (snd p) = n) (AList.update k (row[i := rid]) M)"
    by (intro list_all_update) simp_all
  moreover have "\<forall>k'. map_of (AList.update k (row[i := rid]) M) k' =
      (if k' = k then map_option (\<lambda>row. row[i := rid]) (map_of M k') else map_of M k')"
    using row by (simp add: update_conv')
  ultimately show ?thesis by simp
qed

lemma set_readings_ok:
  assumes "set ks \<subseteq> fst ` set M" and "list_all (\<lambda>p. length (snd p) = n) M" and "i < n"
  shows "\<exists>M'. set_readings i rid ks M = Inr M' \<and> map fst M' = map fst M \<and>
     list_all (\<lambda>p. length (snd p) = n) M' \<and>
     (\<forall>k'. map_of M' k' = (if k' \<in> set ks then map_option (\<lambda>row. row[i := rid]) (map_of M k')
                           else map_of M k'))"
  using assms
proof (induction ks arbitrary: M)
  case Nil
  then show ?case by simp
next
  case (Cons k ks)
  from Cons.prems have "k \<in> fst ` set M" by simp
  from set_reading_ok [OF this Cons.prems(2,3), of rid] obtain M1 where
    1: "set_reading i rid k M = Inr M1" and k1: "map fst M1 = map fst M"
    and r1: "list_all (\<lambda>p. length (snd p) = n) M1"
    and m1: "\<forall>k'. map_of M1 k' = (if k' = k then map_option (\<lambda>row. row[i := rid]) (map_of M k')
                           else map_of M k')"
    by blast
  from k1 have "fst ` set M1 = fst ` set M" by (metis list.set_map)
  with Cons.prems have "set ks \<subseteq> fst ` set M1" by simp
  from Cons.IH [OF this r1 Cons.prems(3)] obtain M' where
    2: "set_readings i rid ks M1 = Inr M'" and k2: "map fst M' = map fst M1"
    and r2: "list_all (\<lambda>p. length (snd p) = n) M'"
    and m2: "\<forall>k'. map_of M' k' = (if k' \<in> set ks then map_option (\<lambda>row. row[i := rid]) (map_of M1 k')
                           else map_of M1 k')"
    by blast
  have "map_of M' k' = (if k' \<in> set (k # ks) then map_option (\<lambda>row. row[i := rid]) (map_of M k')
                           else map_of M k')" for k'
    using m1 m2 by (cases "map_of M k'") auto
  with 1 2 k1 k2 r2 show ?case by simp
qed

lemmas merge_defs =
  merge_variation_units_def sigla_by_base_witness_def register_wit_def set_add_def
  reading_lists_by_siglum_def set_reading_def populate_wit_def citations_def
  wits_by_reading_sequence_def rdg_by_app_rdg_def lac_placeholder_def sequence_key_def
  add_unique_def seg_of_def source_readings_def optional_attribute_def merged_rdg_def
  Collation_def reading_to_index_map_def ident_def get_base_wit_def base_wit_loop.simps
  LAC_SYMBOL_def index_map_def lookup_def bind_err_def sorted_by_def sort_with_keys_def
  dict_append_def py_split_def py_split_on_def is_space_def enumerate_eq_zip Let_def

text \<open>
  Claim C2, as stated, fails: for a citation none of whose non-empty prefixes is in the
  canonical list, \<^verbatim>\<open>get_base_wit\<close> strips every character and returns the empty
  string, not the citation.
\<close>

theorem get_base_wit_counterexample:
  "''X1'' \<notin> set (witnesses (Collation [''A''] [] [])) \<and>
   ''X'' \<notin> set (witnesses (Collation [''A''] [] [])) \<and>
   get_base_wit (Collation [''A''] [] []) ''X1'' = [] \<and>
   get_base_wit (Collation [''A''] [] []) ''X1'' \<noteq> ''X1''"
  by (simp add: merge_defs)

text \<open>
  Claim C2, amended.  For a citation none of whose non-empty prefixes is a key of the
  witness index, \<^verbatim>\<open>get_base_wit\<close> returns the empty string.  The first pass of the Merge
  Engine recognises that result and reports the citation (the message for a siglum with no
  corresponding base witness), and then stops with a \<^verbatim>\<open>KeyError\<close> for the empty key: the
  citation is not registered under any base witness.
\<close>

theorem get_base_wit_unregistered:
  assumes none: "list_all (\<lambda>k. take k wit \<notin> fst ` set (witness_index_by_id c))
                   [1..<Suc (length wit)]"
    and ne: "wit \<noteq> []"
    and nokey: "[] \<notin> fst ` set sigla"
  shows "get_base_wit c wit = [] \<and>
     register_wit ord c wit (msgs, sigla) = (msgs @ [wit], Inl (KeyError []))"
proof -
  from none have b: "get_base_wit c wit = []"
    unfolding get_base_wit_def by (rule base_wit_loop_none)
  from nokey have "map_of sigla [] = None" by (simp add: map_of_eq_None_iff)
  then have "lookup sigla [] = Inl (KeyError [])" by (simp add: lookup_def)
  with b ne show ?thesis by (simp add: register_wit_def)
qed

theorem get_base_wit_unregistered_witness:
  "list_all (\<lambda>k. take k ''X1'' \<notin> fst ` set (witness_index_by_id (Collation [''A''] [] [])))
     [1..<Suc (length ''X1'')] \<and>
   ''X1'' \<noteq> [] \<and>
   [] \<notin> fst ` set [(''A'', [] :: string list)] \<and>
   get_base_wit (Collation [''A''] [] []) ''X1'' = [] \<and>
   register_wit (\<lambda>S. S) (Collation [''A''] [] []) ''X1'' ([], [(''A'', [])]) =
     ([''X1''], Inl (KeyError []))"
proof -
  have 1: "list_all (\<lambda>k. take k ''X1'' \<notin> fst ` set (witness_index_by_id (Collation [''A''] [] [])))
     [1..<Suc (length ''X1'')]"
    by (simp add: merge_defs upt_rec)
  have 2: "''X1'' \<noteq> []" by simp
  have 3: "[] \<notin> fst ` set [(''A'', [] :: string list)]" by simp
  from get_base_wit_unregistered [OF 1 2 3, of "\<lambda>S. S" "[]"] 1 2 3 show ?thesis by simp
qed

text \<open>
  Claim C3, as stated, fails when the base witness is cited after one of its subwitness
  keys in the same unit.  With the canonical witness \<^verbatim>\<open>A\<close> and a unit whose reading 1
  cites \<^verbatim>\<open>A*\<close> and whose reading 2 cites \<^verbatim>\<open>A\<close>, the key \<^verbatim>\<open>A*\<close> is registered, and its
  entry for the unit ends as reading 2: the later base citation overwrites the key's own
  reading.
\<close>

theorem base_citation_counterexample:
  "snd (sigla_by_base_witness (\<lambda>S. S)
     (Collation [''A'']
        [\<lparr>a_id = Some ''U1'', a_n = None,
          a_rdgs = [\<lparr>m_id = None, m_n = Some ''1'', m_wit = Some ''A*'', m_type = None,
                      m_cause = None, m_ana = None, m_lang = None, m_text = None,
                      m_children = []\<rparr>,
                    \<lparr>m_id = None, m_n = Some ''2'', m_wit = Some ''A'', m_type = None,
                      m_cause = None, m_ana = None, m_lang = None, m_text = None,
                      m_children = []\<rparr>]\<rparr>]
        [''U1''])) = Inr [(''A'', [''A*''])] \<and>
   reading_lists_by_siglum (\<lambda>S. S)
     (Collation [''A'']
        [\<lparr>a_id = Some ''U1'', a_n = None,
          a_rdgs = [\<lparr>m_id = None, m_n = Some ''1'', m_wit = Some ''A*'', m_type = None,
                      m_cause = None, m_ana = None, m_lang = None, m_text = None,
                      m_children = []\<rparr>,
                    \<lparr>m_id = None, m_n = Some ''2'', m_wit = Some ''A'', m_type = None,
                      m_cause = None, m_ana = None, m_lang = None, m_text = None,
                      m_children = []\<rparr>]\<rparr>]
        [''U1'']) [(''A'', [''A*''])] = Inr [(''A*'', [''2''])]"
  by (simp add: merge_defs)

text \<open>
  Claim C3, amended.  Let the first pass have registered the sigla, and let the matrix
  have the keys it was initialised with and one column per unit.  Processing a citation of
  a base witness of the canonical list (a siglum without suffixes) at a unit records the
  cited reading in that unit's column for every registered subwitness key of that base
  witness, whether or not the key is cited elsewhere in the unit, or for the base key
  itself when no subwitness key is registered; these keys are rows of the matrix, and no
  other entry changes.  The visiting order of a set is any enumeration of its members.
\<close>

theorem base_citation_recorded:
  assumes reg: "snd (sigla_by_base_witness ord c) = Inr sigla"
    and ord: "\<forall>S. set (ord S) = set S"
    and idx: "fst ` set (witness_index_by_id c) = set (witnesses c)"
    and init: "init_reading_lists ord sigla n (witnesses c) [] = Inr M0"
    and keys: "map fst M = map fst M0"
    and rows: "list_all (\<lambda>p. length (snd p) = n) M"
    and i: "i < n"
    and b: "b \<in> set (witnesses c)"
  shows "\<exists>S M'. map_of sigla b = Some S \<and>
     populate_wit ord c sigla i rdg_id b M = Inr M' \<and>
     map fst M' = map fst M \<and>
     (if S = [] then {b} else set S) \<subseteq> fst ` set M \<and>
     (\<forall>k. map_of M' k =
        (if k \<in> (if S = [] then {b} else set S)
         then map_option (\<lambda>row. row[i := rdg_id]) (map_of M k)
         else map_of M k))"
proof -
  note inv = sigla_by_base_witness_inv [OF reg]
  from inv b have "b \<in> fst ` set sigla" by simp
  then obtain S where S: "map_of sigla b = Some S"
    by (metis domD dom_map_of_conv_image_fst)
  let ?K = "\<lambda>b. case map_of sigla b of None \<Rightarrow> {} | Some S \<Rightarrow> if S = [] then {b} else set S"
  from keys have "fst ` set M = fst ` set M0" by (metis list.set_map)
  with init_reading_lists_keys [OF init ord]
  have dom: "fst ` set M = (\<Union>b \<in> set (witnesses c). ?K b)" by simp
  from S have Kb: "?K b = (if S = [] then {b} else set S)" by simp
  with dom b have sub: "(if S = [] then {b} else set S) \<subseteq> fst ` set M" by blast
  from b idx have self: "get_base_wit c b = b"
    by (simp add: get_base_wit_def base_wit_loop_key)
  show ?thesis
  proof (cases "S = []")
    case True
    with sub have bk: "b \<in> fst ` set M" by simp
    from set_reading_ok [OF bk rows i, of rdg_id] obtain M' where
      "set_reading i rdg_id b M = Inr M'" "map fst M' = map fst M"
      "\<forall>k'. map_of M' k' = (if k' = b then map_option (\<lambda>row. row[i := rdg_id]) (map_of M k')
                           else map_of M k')"
      by blast
    with bk True S sub show ?thesis by (simp add: populate_wit_def)
  next
    case False
    have nb: "b \<notin> fst ` set M"
    proof
      assume "b \<in> fst ` set M"
      with dom obtain b0 where b0: "b0 \<in> set (witnesses c)" and in0: "b \<in> ?K b0" by blast
      then obtain S0 where S0: "map_of sigla b0 = Some S0" by (cases "map_of sigla b0") auto
      show False
      proof (cases "S0 = []")
        case True
        with in0 S0 have "b = b0" by simp
        with S S0 True False show False by simp
      next
        case ne: False
        with in0 S0 have "b \<in> set S0" by simp
        with inv S0 have "get_base_wit c b = b0 \<and> b \<noteq> b0" by blast
        with self show False by simp
      qed
    qed
    have "str_in b s" if "s \<in> set (ord S)" for s
    proof -
      from that ord have "s \<in> set S" by simp
      with inv S have "get_base_wit c s = b" by blast
      then show ?thesis using str_in_base [of "witness_index_by_id c" s]
        by (simp add: get_base_wit_def)
    qed
    then have flt: "filter (\<lambda>siglum. str_in b siglum) (ord S) = ord S"
      by (simp add: filter_id_conv)
    from sub False ord have "set (ord S) \<subseteq> fst ` set M" by simp
    from set_readings_ok [OF this rows i, of rdg_id] obtain M' where
      "set_readings i rdg_id (ord S) M = Inr M'" "map fst M' = map fst M"
      "\<forall>k'. map_of M' k' = (if k' \<in> set (ord S) then map_option (\<lambda>row. row[i := rdg_id]) (map_of M k')
                           else map_of M k')"
      by blast
    with nb self S flt False sub ord show ?thesis
      by (simp add: populate_wit_def lookup_def)
  qed
qed

theorem base_citation_recorded_witness:
  "snd (sigla_by_base_witness (\<lambda>S. S)
     (Collation [''A'']
        [\<lparr>a_id = Some ''U1'', a_n = None,
          a_rdgs = [\<lparr>m_id = None, m_n = Some ''1'', m_wit = Some ''A* AC'', m_type = None,
                      m_cause = None, m_ana = None, m_lang = None, m_text = None,
                      m_children = []\<rparr>]\<rparr>]
        [''U1''])) = Inr [(''A'', [''A*'', ''AC''])] \<and>
   init_reading_lists (\<lambda>S. S) [(''A'', [''A*'', ''AC''])] 1 [''A''] [] =
     Inr [(''A*'', [''Z'']), (''AC'', [''Z''])] \<and>
   populate_wit (\<lambda>S. S)
     (Collation [''A'']
        [\<lparr>a_id = Some ''U1'', a_n = None,
          a_rdgs = [\<lparr>m_id = None, m_n = Some ''1'', m_wit = Some ''A* AC'', m_type = None,
                      m_cause = None, m_ana = None, m_lang = None, m_text = None,
                      m_children = []\<rparr>]\<rparr>]
        [''U1''])
     [(''A'', [''A*'', ''AC''])] 0 ''2'' ''A'' [(''A*'', [''Z'']), (''AC'', [''Z''])] =
     Inr [(''A*'', [''2'']), (''AC'', [''2''])] \<and>
   (\<exists>S M'. map_of [(''A'', [''A*'', ''AC''])] ''A'' = Some S \<and>
      populate_wit (\<lambda>S. S)
        (Collation [''A'']
           [\<lparr>a_id = Some ''U1'', a_n = None,
             a_rdgs = [\<lparr>m_id = None, m_n = Some ''1'', m_wit = Some ''A* AC'', m_type = None,
                         m_cause = None, m_ana = None, m_lang = None, m_text = None,
                         m_children = []\<rparr>]\<rparr>]
           [''U1''])
        [(''A'', [''A*'', ''AC''])] 0 ''2'' ''A'' [(''A*'', [''Z'']), (''AC'', [''Z''])] = Inr M' \<and>
      (if S = [] then {''A''} else set S) \<subseteq> fst ` set [(''A*'', [''Z'']), (''AC'', [''Z''])])"
proof -
  let ?c = "Collation [''A'']
        [\<lparr>a_id = Some ''U1'', a_n = None,
          a_rdgs = [\<lparr>m_id = None, m_n = Some ''1'', m_wit = Some ''A* AC'', m_type = None,
                      m_cause = None, m_ana = None, m_lang = None, m_text = None,
                      m_children = []\<rparr>]\<rparr>]
        [''U1'']"
  let ?sigla = "[(''A'', [''A*'', ''AC''])]"
  let ?M = "[(''A*'', [''Z'']), (''AC'', [''Z''])]"
  have reg: "snd (sigla_by_base_witness (\<lambda>S. S) ?c) = Inr ?sigla"
    by (simp add: merge_defs)
  have ord: "\<forall>S :: string list. set ((\<lambda>S. S) S) = set S" by simp
  have idx: "fst ` set (witness_index_by_id ?c) = set (witnesses ?c)"
    by (simp add: merge_defs)
  have init: "init_reading_lists (\<lambda>S. S) ?sigla 1 (witnesses ?c) [] = Inr ?M"
    by (simp add: merge_defs)
  have keys: "map fst ?M = map fst ?M" by simp
  have rows: "list_all (\<lambda>p. length (snd p) = 1) ?M" by simp
  have i: "(0 :: nat) < 1" by simp
  have b: "''A'' \<in> set (witnesses ?c)" by (simp add: merge_defs)
  from base_citation_recorded [OF reg ord idx init keys rows i b, of "''2''"]
  obtain S M' where "map_of ?sigla ''A'' = Some S"
    "populate_wit (\<lambda>S. S) ?c ?sigla 0 ''2'' ''A'' ?M = Inr M'"
    "(if S = [] then {''A''} else set S) \<subseteq> fst ` set ?M"
    by blast
  then have "\<exists>S M'. map_of ?sigla ''A'' = Some S \<and>
      populate_wit (\<lambda>S. S) ?c ?sigla 0 ''2'' ''A'' ?M = Inr M' \<and>
      (if S = [] then {''A''} else set S) \<subseteq> fst ` set ?M"
    by blast
  moreover have "populate_wit (\<lambda>S. S) ?c ?sigla 0 ''2'' ''A'' ?M =
     Inr [(''A*'', [''2'']), (''AC'', [''2''])]"
    by (simp add: merge_defs)
  moreover from init have "init_reading_lists (\<lambda>S. S) ?sigla 1 [''A''] [] = Inr ?M"
    by (simp add: merge_defs)
  ultimately show ?thesis using reg by (intro conjI)
qed

text \<open>
  Claim C4 against the code.  The base witness \<^verbatim>\<open>A\<close> has the two registered sigla
  \<^verbatim>\<open>A*\<close> and \<^verbatim>\<open>AC\<close>, cited under the same reading; the rows of the matrix are created in
  the order in which the set of the two sigla is visited, and the sort of the group
  compares base witnesses only.  Visited as \<^verbatim>\<open>A*\<close>, \<^verbatim>\<open>AC\<close> the merged reading cites
  \<^verbatim>\<open>A* AC\<close>; visited as \<^verbatim>\<open>AC\<close>, \<^verbatim>\<open>A*\<close> it cites \<^verbatim>\<open>AC A*\<close>.  Two runs on the same
  document can therefore differ.
\<close>

theorem merge_depends_on_set_order:
  "snd (merge_variation_units (\<lambda>S. S)
     (Collation [''A'']
        [\<lparr>a_id = Some ''U1'', a_n = None,
          a_rdgs = [\<lparr>m_id = None, m_n = Some ''1'', m_wit = Some ''A* AC'', m_type = None,
                      m_cause = None, m_ana = None, m_lang = None, m_text = None,
                      m_children = []\<rparr>]\<rparr>]
        [''U1''])) =
   Inr (Element ''app'' [] (Some [CHR 0x0A, CHR 0x09])
        [Element ''rdg'' [(''n'', ''1''), (''wit'', ''A* AC'')]
          (Some [CHR 0x0A, CHR 0x09, CHR 0x09])
          [Element ''seg'' [] None [] (Some [CHR 0x0A, CHR 0x09])]
          (Some [CHR 0x0A, CHR 0x09])]
        None) \<and>
   snd (merge_variation_units rev
     (Collation [''A'']
        [\<lparr>a_id = Some ''U1'', a_n = None,
          a_rdgs = [\<lparr>m_id = None, m_n = Some ''1'', m_wit = Some ''A* AC'', m_type = None,
                      m_cause = None, m_ana = None, m_lang = None, m_text = None,
                      m_children = []\<rparr>]\<rparr>]
        [''U1''])) =
   Inr (Element ''app'' [] (Some [CHR 0x0A, CHR 0x09])
        [Element ''rdg'' [(''n'', ''1''), (''wit'', ''AC A*'')]
          (Some [CHR 0x0A, CHR 0x09, CHR 0x09])
          [Element ''seg'' [] None [] (Some [CHR 0x0A, CHR 0x09])]
          (Some [CHR 0x0A, CHR 0x09])]
        None)"
  by (simp add: merge_defs)

section \<open>Properties of the Renumbering and Sort Engine\<close>

lemmas renumber_defs =
  process_relation_def passive_loop.simps relabel_reference_def sorted_by_def sort_with_keys_def
  reading_reference_key_def py_int_def int_unsigned_def is_digit_def digit_val_def
  lookup_def bind_err_def py_split_def is_space_def enumerate_eq_zip Let_def
  transposition_dict_of_def py_str.simps

text \<open>
  Claim C7 against the code.  With the sequence \<^verbatim>\<open>(1,3,2)\<close>, which maps reading 2 to 3
  and reading 3 to 2, a relation whose active and passive sets are both \<^verbatim>\<open>2 1\<close> should
  come out with both sets \<^verbatim>\<open>1 3\<close>.  The active set does.  The passive set comes out as
  \<^verbatim>\<open>1 1\<close>: the sort that stands inside the passive loop moves the rewritten first
  reference to the second position, where the next assignment overwrites it.
\<close>

theorem process_relation_passive_slip:
  "process_relation (transposition_dict_of [''1'', ''3'', ''2''])
     (Element ''relation'' [(''active'', ''2 1''), (''passive'', ''2 1'')] None [] None) =
   Inr (Element ''relation'' [(''active'', ''1 3''), (''passive'', ''1 1'')] None [] None)"
  by (simp add: renumber_defs)

end
